theory Spec2Isabelle
  imports Main
begin

section \<open>The text-to-SQL agent of \<^verbatim>\<open>sql_agent.py\<close>\<close>

text \<open>
  The agent is a LangGraph \<^verbatim>\<open>StateGraph\<close> over the dictionary \<^verbatim>\<open>SQLState\<close>.
  Every node receives the whole dictionary and returns a partial dictionary, which the graph
  merges into the state (a key that is written replaces the old value, no key is ever
  removed). The language model and the database are the collaborators of the code; they are
  parameters of the model, each with a state of its own, so that a model that answers
  differently on each call and a database that statements change are both covered. The
  database chain is built on this model and this database
  (\<^verbatim>\<open>SQLDatabaseChain.from_llm(llm, db)\<close>); what it does with a statement is library
  code and a parameter too, but every call it makes to the model, to the schema introspection
  and to the database goes through the same collaborators as the calls of the nodes.

  Python text is modelled as \<^typ>\<open>string\<close>, one \<^typ>\<open>char\<close> per code point, which
  restricts the text to the code points below 256. The collaborators are taken to answer:
  a call of the model or of the schema introspection that raises is not modelled, a
  statement that the database chain rejects is. The graph of \<^verbatim>\<open>playground.py\<close>, which
  has no \<^verbatim>\<open>final_error\<close> node, is not the one modelled here.
\<close>

subsection \<open>Text helpers of Python\<close>

definition nl :: string where
  "nl = [CHR 0x0A]"

text \<open>The code points below 256 that \<^verbatim>\<open>str.isspace\<close> accepts.\<close>

definition whitespace :: "char list" where
  "whitespace = [CHR 0x09, CHR 0x0A, CHR 0x0B, CHR 0x0C, CHR 0x0D,
                 CHR 0x1C, CHR 0x1D, CHR 0x1E, CHR 0x1F, CHR 0x20, CHR 0x85, CHR 0xA0]"

definition isspace :: "char \<Rightarrow> bool" where
  "isspace c = (c \<in> set whitespace)"

text \<open>\<^verbatim>\<open>s.strip()\<close>: leading and trailing whitespace removed.\<close>

definition strip :: "string \<Rightarrow> string" where
  "strip s = rev (dropWhile isspace (rev (dropWhile isspace s)))"

text \<open>\<^verbatim>\<open>s.split(sep)\<close> for a separator of one character: one fragment more than there
  are separators, empty fragments kept.\<close>

fun split :: "char \<Rightarrow> string \<Rightarrow> string list" where
  "split sep [] = [[]]"
| "split sep (c # cs) =
     (if c = sep then [] # split sep cs
      else (case split sep cs of
              [] \<Rightarrow> [[c]]
            | frag # frags \<Rightarrow> (c # frag) # frags))"

text \<open>\<^verbatim>\<open>sep.join(xs)\<close>.\<close>

fun join :: "string \<Rightarrow> string list \<Rightarrow> string" where
  "join sep [] = []"
| "join sep [x] = x"
| "join sep (x # y # ys) = x @ sep @ join sep (y # ys)"

subsection \<open>State, collaborators and effects\<close>

text \<open>\<^verbatim>\<open>SQLState\<close> is a \<^verbatim>\<open>TypedDict\<close>, a dictionary at run time: any of its keys
  \<^verbatim>\<open>query\<close>, \<^verbatim>\<open>sql\<close>, \<^verbatim>\<open>result\<close>, \<^verbatim>\<open>explanation\<close>, \<^verbatim>\<open>schema\<close>,
  \<^verbatim>\<open>error\<close> may be absent.\<close>

type_synonym SQLState = "string \<rightharpoonup> string"

text \<open>The exceptions the nodes can raise by themselves: a subscript on a missing key.\<close>

datatype exn = KeyError string

text \<open>\<^verbatim>\<open>str(KeyError(k))\<close> is the key in single quotes.\<close>

definition str_exn :: "exn \<Rightarrow> string" where
  "str_exn e = (case e of KeyError k \<Rightarrow> [CHR 0x27] @ k @ [CHR 0x27])"

text \<open>
  What the chain does with a statement, as a program over the collaborators it was built on:
  it may send a prompt to the model and go on with the answer, introspect the schema and go
  on with the description, run a query on the database and go on with the rows (\<open>Inr\<close>) or
  with the message of the exception the database raises (\<open>Inl\<close>), and in the end it returns
  its textual output or raises.
\<close>

datatype chain =
    Invoke string "string \<Rightarrow> chain"
  | Get_table_info "string \<Rightarrow> chain"
  | Db_run string "string + string \<Rightarrow> chain"
  | Return string
  | Raise string

text \<open>
  The collaborators: \<^verbatim>\<open>llm.invoke\<close> maps a prompt to the content of the response,
  \<^verbatim>\<open>db.run\<close> maps a query to its rows (\<open>Inr\<close>) or to the message of the exception it
  raises (\<open>Inl\<close>), \<^verbatim>\<open>db.get_table_info\<close> describes the schema, and \<open>db_chain\<close> is the
  program of \<^verbatim>\<open>db_chain.run\<close> for a statement.
\<close>

record ('l, 'd) env =
  llm_invoke :: "'l \<Rightarrow> string \<Rightarrow> string \<times> 'l"
  db_execute :: "'d \<Rightarrow> string \<Rightarrow> (string + string) \<times> 'd"
  get_table_info :: "'d \<Rightarrow> string"
  db_chain :: "string \<Rightarrow> chain"

datatype node = generate_sql | run_query | explain_query | handle_error | final_error

text \<open>
  Everything outside the state dictionary that a run touches: the states of the model and of
  the database, and a log of the effects (the prompts sent to the model, by the nodes and by
  the chain alike, the statements handed to the database chain, the number of schema
  introspections, the nodes entered).
\<close>

record ('l, 'd) world =
  llm_state :: 'l
  db_state :: 'd
  prompts :: "string list"
  executed :: "string list"
  schema_fetches :: nat
  visited :: "node list"

definition llm_call :: "('l, 'd) env \<Rightarrow> ('l, 'd) world \<Rightarrow> string \<Rightarrow> string \<times> ('l, 'd) world" where
  "llm_call E w prompt =
     (case llm_invoke E (llm_state w) prompt of
        (content, l') \<Rightarrow> (content, w\<lparr>llm_state := l', prompts := prompts w @ [prompt]\<rparr>))"

definition get_schema :: "('l, 'd) env \<Rightarrow> ('l, 'd) world \<Rightarrow> string \<times> ('l, 'd) world" where
  "get_schema E w =
     (get_table_info E (db_state w), w\<lparr>schema_fetches := Suc (schema_fetches w)\<rparr>)"

text \<open>Running a program of the chain: its calls change the model, the database and the
  logs like the calls of the nodes do.\<close>

primrec run_chain ::
  "('l, 'd) env \<Rightarrow> chain \<Rightarrow> ('l, 'd) world \<Rightarrow> (string + string) \<times> ('l, 'd) world" where
  "run_chain E (Return answer) w = (Inr answer, w)"
| "run_chain E (Raise msg) w = (Inl msg, w)"
| "run_chain E (Invoke prompt k) w =
     (case llm_call E w prompt of (content, w') \<Rightarrow> run_chain E (k content) w')"
| "run_chain E (Get_table_info k) w =
     (case get_schema E w of (info, w') \<Rightarrow> run_chain E (k info) w')"
| "run_chain E (Db_run query k) w =
     (case db_execute E (db_state w) query of
        (rows, d') \<Rightarrow> run_chain E (k rows) (w\<lparr>db_state := d'\<rparr>))"

text \<open>\<^verbatim>\<open>db_chain.run(stmt)\<close>: the statement is logged and the program of the chain for it
  is run.\<close>

definition db_run :: "('l, 'd) env \<Rightarrow> ('l, 'd) world \<Rightarrow> string \<Rightarrow> (string + string) \<times> ('l, 'd) world" where
  "db_run E w stmt = run_chain E (db_chain E stmt) (w\<lparr>executed := executed w @ [stmt]\<rparr>)"

subsection \<open>Prompts\<close>

definition QUERY_PROMPT :: "string \<Rightarrow> string \<Rightarrow> string" where
  "QUERY_PROMPT schema query =
     ''You are a SQL query generator. Given a natural language question, generate a SQL query that answers it.''
     @ nl @ ''Database schema: '' @ schema
     @ nl @ ''Question: '' @ query
     @ nl @ ''Generated SQL query:''"

definition EXPLANATION_PROMPT :: "string \<Rightarrow> string" where
  "EXPLANATION_PROMPT sql =
     ''Explain the SQL query in simple terms:''
     @ nl @ ''Query: '' @ sql
     @ nl @ ''Explanation:''"

definition ERROR_HANDLING_PROMPT :: "string \<Rightarrow> string \<Rightarrow> string \<Rightarrow> string \<Rightarrow> string" where
  "ERROR_HANDLING_PROMPT error schema query sql =
     ''The previous query failed with error: '' @ error
     @ nl @ ''Please analyze the error and generate a corrected SQL query.''
     @ nl @ ''Database schema: '' @ schema
     @ nl @ ''Original question: '' @ query
     @ nl @ ''Failed query: '' @ sql
     @ nl @ ''Corrected SQL query:''"

subsection \<open>The nodes\<close>

text \<open>
  \<^verbatim>\<open>state.get('schema', get_schema())\<close>: Python evaluates the default before the
  lookup, so the schema is introspected on every call and the answer is dropped when the key
  is there.
\<close>

definition schema_of :: "('l, 'd) env \<Rightarrow> ('l, 'd) world \<Rightarrow> SQLState \<Rightarrow> string \<times> ('l, 'd) world" where
  "schema_of E w state =
     (case get_schema E w of
        (fetched, w') \<Rightarrow> ((case state ''schema'' of Some v \<Rightarrow> v | None \<Rightarrow> fetched), w'))"

definition query_node ::
  "('l, 'd) env \<Rightarrow> ('l, 'd) world \<Rightarrow> SQLState \<Rightarrow> (exn + SQLState) \<times> ('l, 'd) world" where
  "query_node E w state =
     (case schema_of E w state of
        (schema, w1) \<Rightarrow>
          (case state ''query'' of
             None \<Rightarrow> (Inl (KeyError ''query''), w1)
           | Some query \<Rightarrow>
               (case llm_call E w1 (QUERY_PROMPT schema query) of
                  (content, w2) \<Rightarrow>
                    (if strip content = []
                     then (Inr [''error'' \<mapsto> ''No SQL query generated''], w2)
                     else (Inr [''sql'' \<mapsto> strip content], w2)))))"

text \<open>The statements of \<^verbatim>\<open>execute_node\<close>: the fragments between semicolons that are not
  blank, each stripped.\<close>

definition statements_of :: "string \<Rightarrow> string list" where
  "statements_of sql = map strip (filter (\<lambda>stmt. strip stmt \<noteq> []) (split CHR '';'' sql))"

text \<open>The loop over the statements: \<open>Inl (stmt, msg)\<close> is the early return at the first
  statement whose execution raises, \<open>Inr results\<close> the outputs collected in order.\<close>

fun run_statements ::
  "('l, 'd) env \<Rightarrow> ('l, 'd) world \<Rightarrow> string list \<Rightarrow> string list
     \<Rightarrow> (string \<times> string + string list) \<times> ('l, 'd) world" where
  "run_statements E w results [] = (Inr results, w)"
| "run_statements E w results (stmt # rest) =
     (case db_run E w stmt of
        (Inl msg, w') \<Rightarrow> (Inl (stmt, msg), w')
      | (Inr out, w') \<Rightarrow> run_statements E w' (results @ [out]) rest)"

text \<open>The outer \<^verbatim>\<open>try\<close> of \<^verbatim>\<open>execute_node\<close> turns the \<^verbatim>\<open>KeyError\<close> of
  \<^verbatim>\<open>state['sql']\<close> into an error entry.\<close>

definition execute_node ::
  "('l, 'd) env \<Rightarrow> ('l, 'd) world \<Rightarrow> SQLState \<Rightarrow> (exn + SQLState) \<times> ('l, 'd) world" where
  "execute_node E w state =
     (case state ''sql'' of
        None \<Rightarrow> (Inr [''error'' \<mapsto> str_exn (KeyError ''sql'')], w)
      | Some sql \<Rightarrow>
          (case run_statements E w [] (statements_of sql) of
             (Inl (stmt, msg), w') \<Rightarrow>
               (Inr [''error'' \<mapsto> ''Error executing statement: '' @ stmt @ nl @ ''Error: '' @ msg], w')
           | (Inr results, w') \<Rightarrow> (Inr [''result'' \<mapsto> join nl results], w')))"

definition explain_node ::
  "('l, 'd) env \<Rightarrow> ('l, 'd) world \<Rightarrow> SQLState \<Rightarrow> (exn + SQLState) \<times> ('l, 'd) world" where
  "explain_node E w state =
     (case state ''sql'' of
        None \<Rightarrow> (Inl (KeyError ''sql''), w)
      | Some sql \<Rightarrow>
          (case llm_call E w (EXPLANATION_PROMPT sql) of
             (content, w') \<Rightarrow> (Inr [''explanation'' \<mapsto> content], w')))"

text \<open>The keyword arguments of \<^verbatim>\<open>format\<close> are evaluated in the order \<^verbatim>\<open>error\<close>,
  \<^verbatim>\<open>schema\<close>, \<^verbatim>\<open>query\<close>, \<^verbatim>\<open>sql\<close>; the first missing key raises.\<close>

definition error_handling_node ::
  "('l, 'd) env \<Rightarrow> ('l, 'd) world \<Rightarrow> SQLState \<Rightarrow> (exn + SQLState) \<times> ('l, 'd) world" where
  "error_handling_node E w state =
     (case schema_of E w state of
        (schema, w1) \<Rightarrow>
          (case state ''error'' of
             None \<Rightarrow> (Inl (KeyError ''error''), w1)
           | Some error \<Rightarrow>
               (case state ''query'' of
                  None \<Rightarrow> (Inl (KeyError ''query''), w1)
                | Some query \<Rightarrow>
                    (case state ''sql'' of
                       None \<Rightarrow> (Inl (KeyError ''sql''), w1)
                     | Some sql \<Rightarrow>
                         (case llm_call E w1 (ERROR_HANDLING_PROMPT error schema query sql) of
                            (content, w2) \<Rightarrow>
                              (if strip content = []
                               then (Inr [''error'' \<mapsto> ''Failed to generate corrected query''], w2)
                               else (Inr [''sql'' \<mapsto> strip content], w2)))))))"

text \<open>The lambda registered as \<^verbatim>\<open>final_error\<close>.\<close>

definition final_error_node ::
  "('l, 'd) env \<Rightarrow> ('l, 'd) world \<Rightarrow> SQLState \<Rightarrow> (exn + SQLState) \<times> ('l, 'd) world" where
  "final_error_node E w state =
     (Inr [''error'' \<mapsto> ''Final error: '' @
             (case state ''error'' of Some e \<Rightarrow> e | None \<Rightarrow> ''Unknown error'')], w)"

subsection \<open>The graph of \<^verbatim>\<open>create_sql_agent\<close>\<close>

text \<open>\<^verbatim>\<open>add_node\<close>: the function behind each node name.\<close>

fun node_action ::
  "node \<Rightarrow> ('l, 'd) env \<Rightarrow> ('l, 'd) world \<Rightarrow> SQLState \<Rightarrow> (exn + SQLState) \<times> ('l, 'd) world" where
  "node_action generate_sql = query_node"
| "node_action run_query = execute_node"
| "node_action explain_query = explain_node"
| "node_action handle_error = error_handling_node"
| "node_action final_error = final_error_node"

text \<open>The condition of both conditional edges, \<^verbatim>\<open>lambda state: 'error' in state\<close>.\<close>

definition error_in :: "SQLState \<Rightarrow> bool" where
  "error_in state = (state ''error'' \<noteq> None)"

text \<open>\<^verbatim>\<open>add_edge\<close> and \<^verbatim>\<open>add_conditional_edges\<close>: the node that follows, on the
  state after the merge; \<open>None\<close> is \<^verbatim>\<open>END\<close>.\<close>

fun next_node :: "node \<Rightarrow> SQLState \<Rightarrow> node option" where
  "next_node generate_sql state = Some run_query"
| "next_node run_query state = Some (if error_in state then handle_error else explain_query)"
| "next_node handle_error state = Some (if error_in state then final_error else run_query)"
| "next_node explain_query state = None"
| "next_node final_error state = None"

text \<open>Entering a node is logged.\<close>

definition enter :: "node \<Rightarrow> ('l, 'd) world \<Rightarrow> ('l, 'd) world" where
  "enter n w = w\<lparr>visited := visited w @ [n]\<rparr>"

text \<open>
  Running the compiled graph from a node: enter the node, merge what it returns into the
  state, follow the edge. An exception of a node ends the run and reaches the caller.
  Nothing in the definition bounds the number of steps; a run that never reaches
  \<^verbatim>\<open>END\<close> has the value \<open>None\<close>.
\<close>

partial_function (option) invoke_from ::
  "('l, 'd) env \<Rightarrow> node \<Rightarrow> ('l, 'd) world \<Rightarrow> SQLState
     \<Rightarrow> ((exn + SQLState) \<times> ('l, 'd) world) option" where
  "invoke_from E n w state =
     (case node_action n E (enter n w) state of
        (Inl e, w') \<Rightarrow> Some (Inl e, w')
      | (Inr update, w') \<Rightarrow>
          (case next_node n (state ++ update) of
             None \<Rightarrow> Some (Inr (state ++ update), w')
           | Some n' \<Rightarrow> invoke_from E n' w' (state ++ update)))"

text \<open>\<^verbatim>\<open>agent.invoke(state)\<close>, with \<^verbatim>\<open>generate_sql\<close> the entry point.\<close>

definition agent_invoke ::
  "('l, 'd) env \<Rightarrow> ('l, 'd) world \<Rightarrow> SQLState \<Rightarrow> ((exn + SQLState) \<times> ('l, 'd) world) option" where
  "agent_invoke E w state = invoke_from E generate_sql w state"

subsection \<open>One question in \<^verbatim>\<open>main\<close>\<close>

text \<open>The state \<^verbatim>\<open>main\<close> builds: all six keys, \<^verbatim>\<open>error\<close> among them with the empty
  string.\<close>

definition initial_state :: "string \<Rightarrow> string \<Rightarrow> SQLState" where
  "initial_state query schema =
     [''query'' \<mapsto> query, ''sql'' \<mapsto> [], ''result'' \<mapsto> [], ''explanation'' \<mapsto> [],
      ''schema'' \<mapsto> schema, ''error'' \<mapsto> []]"

definition ask ::
  "('l, 'd) env \<Rightarrow> ('l, 'd) world \<Rightarrow> string \<Rightarrow> ((exn + SQLState) \<times> ('l, 'd) world) option" where
  "ask E w query =
     (case get_schema E w of
        (schema, w') \<Rightarrow> agent_invoke E w' (initial_state query schema))"

text \<open>The state the graph returns after \<^verbatim>\<open>final_error\<close>.\<close>

definition gave_up :: "SQLState \<Rightarrow> SQLState" where
  "gave_up state = state ++ [''error'' \<mapsto> ''Final error: '' @
                  (case state ''error'' of Some e \<Rightarrow> e | None \<Rightarrow> ''Unknown error'')]"

subsection \<open>What a caller observes of a run\<close>

text \<open>A field of the state returned, the nodes entered, and the number of schema
  introspections of a finished run.\<close>

definition field_of ::
  "string \<Rightarrow> ((exn + SQLState) \<times> ('l, 'd) world) option \<Rightarrow> string option" where
  "field_of k run = (case run of Some (Inr state, w) \<Rightarrow> state k | _ \<Rightarrow> None)"

definition nodes_of :: "((exn + SQLState) \<times> ('l, 'd) world) option \<Rightarrow> node list" where
  "nodes_of run = (case run of Some (r, w) \<Rightarrow> visited w | None \<Rightarrow> [])"

definition fetches_of :: "((exn + SQLState) \<times> ('l, 'd) world) option \<Rightarrow> nat" where
  "fetches_of run = (case run of Some (r, w) \<Rightarrow> schema_fetches w | None \<Rightarrow> 0)"

subsection \<open>Statements run one after the other, in words\<close>

text \<open>
  The reference the execution step is compared with: the collaborators and logs left by
  handing the statements of a list to the chain one after the other, and the outcome of the
  statement at a position of the list when it is handed to the chain on the collaborators
  left by the statements before it.
\<close>

definition db_after :: "('l, 'd) env \<Rightarrow> ('l, 'd) world \<Rightarrow> string list \<Rightarrow> ('l, 'd) world" where
  "db_after E w stmts = fold (\<lambda>stmt w'. snd (db_run E w' stmt)) stmts w"

definition outcome :: "('l, 'd) env \<Rightarrow> ('l, 'd) world \<Rightarrow> string list \<Rightarrow> nat \<Rightarrow> string + string" where
  "outcome E w stmts i = fst (db_run E (db_after E w (take i stmts)) (stmts ! i))"

subsection \<open>Stand-ins for the collaborators\<close>

text \<open>
  A scripted model answers with the next entry of its script whatever the prompt is, and
  with blank text once the script is used up. The stand-in database accepts the statements
  that begin with \<^verbatim>\<open>SELECT\<close>, counting them, and rejects every other statement. The
  plain chain is a stand-in for \<^verbatim>\<open>db_chain\<close> that hands the statement to the database as
  it is, returns the rows or raises what the database raises, and consults neither the model
  nor the schema.
\<close>

definition plain_chain :: "string \<Rightarrow> chain" where
  "plain_chain stmt =
     Db_run stmt (\<lambda>rows. case rows of Inl msg \<Rightarrow> Raise msg | Inr out \<Rightarrow> Return out)"

definition scripted_llm :: "string list \<Rightarrow> string \<Rightarrow> string \<times> string list" where
  "scripted_llm script prompt =
     (case script of [] \<Rightarrow> ([], []) | answer # rest \<Rightarrow> (answer, rest))"

definition stub_db :: "nat \<Rightarrow> string \<Rightarrow> (string + string) \<times> nat" where
  "stub_db d stmt =
     (if take 6 stmt = ''SELECT'' then (Inr ''1'', Suc d) else (Inl ''syntax error'', d))"

definition stub_env :: "(string list, nat) env" where
  "stub_env = \<lparr>llm_invoke = scripted_llm, db_execute = stub_db,
               get_table_info = (\<lambda>d. ''t(a)''), db_chain = plain_chain\<rparr>"

definition fresh :: "string list \<Rightarrow> (string list, nat) world" where
  "fresh script = \<lparr>llm_state = script, db_state = 0, prompts = [], executed = [],
                   schema_fetches = 0, visited = []\<rparr>"

text \<open>
  A model that gives the same answer to every prompt and counts its calls, on a database
  that answers every statement and is left as it was.
\<close>

definition steady_env :: "(nat, nat) env" where
  "steady_env = \<lparr>llm_invoke = (\<lambda>calls prompt. (''SELECT 1'', Suc calls)),
                 db_execute = (\<lambda>d stmt. (Inr ''1'', d)),
                 get_table_info = (\<lambda>d. ''t(a)''),
                 db_chain = plain_chain\<rparr>"

text \<open>
  A stand-in chain that consults its collaborators in the way the chain of the library does:
  it introspects the schema, asks the model for a query, runs the query, and asks the model
  to word the answer. The wording of its two prompts is made up.
\<close>

definition wired_chain :: "string \<Rightarrow> chain" where
  "wired_chain stmt =
     Get_table_info (\<lambda>info.
       Invoke (''Schema: '' @ info @ nl @ ''Question: '' @ stmt) (\<lambda>query.
         Db_run query (\<lambda>rows.
           case rows of
             Inl msg \<Rightarrow> Raise msg
           | Inr out \<Rightarrow> Invoke (''Result: '' @ out) (\<lambda>answer. Return answer))))"

definition wired_env :: "(nat, nat) env" where
  "wired_env = steady_env\<lparr>db_chain := wired_chain\<rparr>"

section \<open>Properties\<close>

subsection \<open>The nodes and the effect log\<close>


lemma error_in_merge: "error_in state \<Longrightarrow> error_in (state ++ update)"
  by (simp add: error_in_def map_add_def split: option.splits)

lemma query_node_world:
  assumes "query_node E w state = (r, w')"
  shows "visited w' = visited w" and "executed w' = executed w" and "db_state w' = db_state w"
    and "schema_fetches w' = Suc (schema_fetches w)"
  using assms
  by (auto simp: query_node_def schema_of_def get_schema_def llm_call_def
           split: prod.splits option.splits if_splits)

lemma error_handling_node_world:
  assumes "error_handling_node E w state = (r, w')"
  shows "visited w' = visited w" and "executed w' = executed w" and "db_state w' = db_state w"
    and "schema_fetches w' = Suc (schema_fetches w)"
  using assms
  by (auto simp: error_handling_node_def schema_of_def get_schema_def llm_call_def
           split: prod.splits option.splits if_splits)

lemma explain_node_world:
  assumes "explain_node E w state = (r, w')"
  shows "visited w' = visited w" and "executed w' = executed w" and "db_state w' = db_state w"
    and "schema_fetches w' = schema_fetches w"
  using assms
  by (auto simp: explain_node_def llm_call_def split: prod.splits option.splits)

lemma run_chain_world:
  assumes "run_chain E c w = (r, w')"
  shows "visited w' = visited w \<and> executed w' = executed w
         \<and> (\<exists>sent. prompts w' = prompts w @ sent)"
  using assms
proof (induction c arbitrary: w)
  case (Invoke prompt k)
  obtain content w1 where call: "llm_call E w prompt = (content, w1)"
    by (cases "llm_call E w prompt")
  then have step: "visited w1 = visited w \<and> executed w1 = executed w
                   \<and> prompts w1 = prompts w @ [prompt]"
    by (auto simp: llm_call_def split: prod.splits)
  from Invoke.prems call have "run_chain E (k content) w1 = (r, w')" by simp
  from Invoke.IH [OF rangeI this] step show ?case by auto
next
  case (Get_table_info k)
  define w1 where "w1 = w\<lparr>schema_fetches := Suc (schema_fetches w)\<rparr>"
  from Get_table_info.prems
  have "run_chain E (k (get_table_info E (db_state w))) w1 = (r, w')"
    by (simp add: get_schema_def w1_def)
  from Get_table_info.IH [OF rangeI this] show ?case by (simp add: w1_def)
next
  case (Db_run query k)
  obtain rows d where db: "db_execute E (db_state w) query = (rows, d)"
    by (cases "db_execute E (db_state w) query")
  with Db_run.prems have "run_chain E (k rows) (w\<lparr>db_state := d\<rparr>) = (r, w')" by simp
  from Db_run.IH [OF rangeI this] show ?case by simp
next
  case (Return answer)
  then show ?case by auto
next
  case (Raise msg)
  then show ?case by auto
qed

lemma db_run_world:
  assumes "db_run E w stmt = (r, w')"
  shows "visited w' = visited w \<and> executed w' = executed w @ [stmt]
         \<and> (\<exists>sent. prompts w' = prompts w @ sent)"
  using run_chain_world [of E "db_chain E stmt" "w\<lparr>executed := executed w @ [stmt]\<rparr>" r w'] assms
  by (simp add: db_run_def)

lemma run_statements_world:
  assumes "run_statements E w acc stmts = (r, w')"
  shows "visited w' = visited w \<and> (\<exists>sent. prompts w' = prompts w @ sent)"
  using assms
proof (induction stmts arbitrary: w acc)
  case Nil
  then show ?case by simp
next
  case (Cons stmt rest)
  obtain x w1 where run: "db_run E w stmt = (x, w1)"
    by (cases "db_run E w stmt")
  from db_run_world [OF run]
  have step: "visited w1 = visited w \<and> (\<exists>sent. prompts w1 = prompts w @ sent)" by simp
  show ?case
  proof (cases x)
    case (Inl msg)
    with Cons.prems run step show ?thesis by simp
  next
    case (Inr out)
    with Cons.prems run have "run_statements E w1 (acc @ [out]) rest = (r, w')" by simp
    from Cons.IH [OF this] step show ?thesis by auto
  qed
qed

lemma execute_node_world:
  assumes "execute_node E w state = (r, w')"
  shows "visited w' = visited w" and "\<exists>sent. prompts w' = prompts w @ sent"
  using assms run_statements_world [of E w "[]"]
  by (auto simp: execute_node_def split: prod.splits option.splits sum.splits)

lemma query_node_raises:
  "query_node E w state = (Inl e, w') \<Longrightarrow> state ''query'' = None"
  by (auto simp: query_node_def split: prod.splits option.splits if_splits)

lemma query_node_update:
  assumes "query_node E w state = (Inr update, w')"
  shows "update = [''error'' \<mapsto> ''No SQL query generated'']
         \<or> (\<exists>sql. sql \<noteq> [] \<and> update = [''sql'' \<mapsto> sql])"
  using assms
  by (auto simp: query_node_def split: prod.splits option.splits if_splits)

lemma execute_node_update:
  "\<exists>update w'. execute_node E w state = (Inr update, w')
      \<and> ((\<exists>e. update = [''error'' \<mapsto> e]) \<or> (\<exists>r. update = [''result'' \<mapsto> r]))"
  by (auto simp: execute_node_def split: prod.splits option.splits sum.splits)

lemma error_handling_node_raises:
  assumes "error_handling_node E w state = (Inl e, w')"
  shows "state ''error'' = None \<or> state ''query'' = None \<or> state ''sql'' = None"
  using assms
  by (auto simp: error_handling_node_def split: prod.splits option.splits if_splits)

lemma error_handling_node_update:
  assumes "error_handling_node E w state = (Inr update, w')"
  shows "update = [''error'' \<mapsto> ''Failed to generate corrected query'']
         \<or> (\<exists>sql. sql \<noteq> [] \<and> update = [''sql'' \<mapsto> sql])"
  using assms
  by (auto simp: error_handling_node_def split: prod.splits option.splits if_splits)

lemma explain_node_raises:
  "explain_node E w state = (Inl e, w') \<Longrightarrow> state ''sql'' = None"
  by (auto simp: explain_node_def split: prod.splits option.splits)

lemma explain_node_update:
  "explain_node E w state = (Inr update, w') \<Longrightarrow> \<exists>text. update = [''explanation'' \<mapsto> text]"
  by (auto simp: explain_node_def split: prod.splits option.splits)

lemma invoke_final_error:
  "invoke_from E final_error w state =
     Some (Inr (state ++ [''error'' \<mapsto> ''Final error: '' @
                  (case state ''error'' of Some e \<Rightarrow> e | None \<Rightarrow> ''Unknown error'')]),
           enter final_error w)"
  by (subst invoke_from.simps) (simp add: final_error_node_def)

lemma invoke_explain_query:
  "invoke_from E explain_query w state =
     (case explain_node E (enter explain_query w) state of
        (Inl e, w') \<Rightarrow> Some (Inl e, w')
      | (Inr update, w') \<Rightarrow> Some (Inr (state ++ update), w'))"
  by (subst invoke_from.simps) (simp split: prod.splits sum.splits)

lemma invoke_handle_error:
  assumes "error_in state"
  shows "invoke_from E handle_error w state =
     (case error_handling_node E (enter handle_error w) state of
        (Inl e, w') \<Rightarrow> Some (Inl e, w')
      | (Inr update, w') \<Rightarrow> invoke_from E final_error w' (state ++ update))"
  using assms
  by (subst invoke_from.simps) (simp add: error_in_merge split: prod.splits sum.splits)

lemma invoke_run_query:
  "invoke_from E run_query w state =
     (case execute_node E (enter run_query w) state of
        (Inl e, w') \<Rightarrow> Some (Inl e, w')
      | (Inr update, w') \<Rightarrow>
          (if error_in (state ++ update) then invoke_from E handle_error w' (state ++ update)
           else invoke_from E explain_query w' (state ++ update)))"
  by (subst invoke_from.simps) (simp split: prod.splits sum.splits)

lemma invoke_generate_sql:
  "invoke_from E generate_sql w state =
     (case query_node E (enter generate_sql w) state of
        (Inl e, w') \<Rightarrow> Some (Inl e, w')
      | (Inr update, w') \<Rightarrow> invoke_from E run_query w' (state ++ update))"
  by (subst invoke_from.simps) (simp split: prod.splits sum.splits)


lemma execute_node_result:
  assumes "execute_node E w state = (Inr update, w')" and "update ''error'' = None"
  shows "state ''sql'' \<noteq> None"
  using assms
  by (auto simp: execute_node_def split: prod.splits option.splits sum.splits)

lemma agent_invoke_cases:
  obtains
    (generate_raises) e w1 where
      "query_node E (enter generate_sql w) state = (Inl e, w1)"
      "agent_invoke E w state = Some (Inl e, w1)"
  | (explained) u1 w1 u2 w2 u3 w3 where
      "query_node E (enter generate_sql w) state = (Inr u1, w1)"
      "execute_node E (enter run_query w1) (state ++ u1) = (Inr u2, w2)"
      "\<not> error_in (state ++ u1 ++ u2)"
      "explain_node E (enter explain_query w2) (state ++ u1 ++ u2) = (Inr u3, w3)"
      "agent_invoke E w state = Some (Inr (state ++ u1 ++ u2 ++ u3), w3)"
  | (repair_raises) u1 w1 u2 w2 e w3 where
      "query_node E (enter generate_sql w) state = (Inr u1, w1)"
      "execute_node E (enter run_query w1) (state ++ u1) = (Inr u2, w2)"
      "error_in (state ++ u1 ++ u2)"
      "error_handling_node E (enter handle_error w2) (state ++ u1 ++ u2) = (Inl e, w3)"
      "agent_invoke E w state = Some (Inl e, w3)"
  | (abandoned) u1 w1 u2 w2 u3 w3 where
      "query_node E (enter generate_sql w) state = (Inr u1, w1)"
      "execute_node E (enter run_query w1) (state ++ u1) = (Inr u2, w2)"
      "error_in (state ++ u1 ++ u2)"
      "error_handling_node E (enter handle_error w2) (state ++ u1 ++ u2) = (Inr u3, w3)"
      "agent_invoke E w state = Some (Inr (gave_up (state ++ u1 ++ u2 ++ u3)), enter final_error w3)"
proof -
  obtain r1 w1 where q: "query_node E (enter generate_sql w) state = (r1, w1)"
    by (cases "query_node E (enter generate_sql w) state")
  show thesis
  proof (cases r1)
    case (Inl e)
    with q have "agent_invoke E w state = Some (Inl e, w1)"
      by (simp add: agent_invoke_def invoke_generate_sql)
    with q Inl show thesis by (auto intro: generate_raises)
  next
    case (Inr u1)
    obtain u2 w2 where x: "execute_node E (enter run_query w1) (state ++ u1) = (Inr u2, w2)"
      using execute_node_update [of E "enter run_query w1" "state ++ u1"] by blast
    from q Inr x have run: "agent_invoke E w state =
        (if error_in (state ++ u1 ++ u2) then invoke_from E handle_error w2 (state ++ u1 ++ u2)
         else invoke_from E explain_query w2 (state ++ u1 ++ u2))"
      by (simp add: agent_invoke_def invoke_generate_sql invoke_run_query)
    show thesis
    proof (cases "error_in (state ++ u1 ++ u2)")
      case False
      then have "u2 ''error'' = None"
        by (simp add: error_in_def map_add_def split: option.splits)
      with x have "(state ++ u1) ''sql'' \<noteq> None" by (rule execute_node_result)
      then have sql: "(state ++ u1 ++ u2) ''sql'' \<noteq> None"
        by (simp add: map_add_def split: option.splits)
      obtain r3 w3 where
        ex: "explain_node E (enter explain_query w2) (state ++ u1 ++ u2) = (r3, w3)"
        by (cases "explain_node E (enter explain_query w2) (state ++ u1 ++ u2)")
      with sql obtain u3 where r3: "r3 = Inr u3"
        by (cases r3) (auto dest: explain_node_raises)
      from run False ex r3
      have "agent_invoke E w state = Some (Inr (state ++ u1 ++ u2 ++ u3), w3)"
        by (simp add: invoke_explain_query)
      with q Inr x False ex r3 show thesis by (auto intro: explained)
    next
      case True
      obtain r3 w3 where
        h: "error_handling_node E (enter handle_error w2) (state ++ u1 ++ u2) = (r3, w3)"
        by (cases "error_handling_node E (enter handle_error w2) (state ++ u1 ++ u2)")
      show thesis
      proof (cases r3)
        case (Inl e)
        with run True h have "agent_invoke E w state = Some (Inl e, w3)"
          by (simp add: invoke_handle_error)
        with q Inr x True h Inl show thesis by (auto intro: repair_raises)
      next
        case u3: (Inr u3)
        with run True h have "agent_invoke E w state =
            Some (Inr (gave_up (state ++ u1 ++ u2 ++ u3)), enter final_error w3)"
          by (simp add: invoke_handle_error invoke_final_error gave_up_def)
        with q Inr x True h u3 show thesis by (auto intro: abandoned)
      qed
    qed
  qed
qed

subsection \<open>The shapes of a run\<close>

lemma path_abandoned:
  assumes "query_node E (enter generate_sql w) state = (r1, w1)"
    and "execute_node E (enter run_query w1) s1 = (r2, w2)"
    and "error_handling_node E (enter handle_error w2) s2 = (r3, w3)"
  shows "visited (enter final_error w3) =
           visited w @ [generate_sql, run_query, handle_error, final_error]"
    and "visited w3 = visited w @ [generate_sql, run_query, handle_error]"
    and "visited w1 = visited w @ [generate_sql]"
  using query_node_world(1) [OF assms(1)] execute_node_world(1) [OF assms(2)]
    error_handling_node_world(1) [OF assms(3)]
  by (simp_all add: enter_def)

lemma path_explained:
  assumes "query_node E (enter generate_sql w) state = (r1, w1)"
    and "execute_node E (enter run_query w1) s1 = (r2, w2)"
    and "explain_node E (enter explain_query w2) s2 = (r3, w3)"
  shows "visited w3 = visited w @ [generate_sql, run_query, explain_query]"
  using query_node_world(1) [OF assms(1)] execute_node_world(1) [OF assms(2)]
    explain_node_world(1) [OF assms(3)]
  by (simp add: enter_def)

lemma gave_up_error:
  "\<exists>e. gave_up state ''error'' = Some (''Final error: '' @ e)"
  by (simp add: gave_up_def)

lemma merge_keeps:
  "state k \<noteq> None \<Longrightarrow> (state ++ update) k \<noteq> None"
  by (simp add: map_add_def split: option.splits)

lemma agent_invoke_keys_cases [consumes 2, case_names explained abandoned]:
  assumes "state ''query'' \<noteq> None" and "state ''sql'' \<noteq> None"
  obtains
    (explained) u1 w1 u2 w2 u3 w3 where
      "query_node E (enter generate_sql w) state = (Inr u1, w1)"
      "execute_node E (enter run_query w1) (state ++ u1) = (Inr u2, w2)"
      "\<not> error_in (state ++ u1 ++ u2)"
      "explain_node E (enter explain_query w2) (state ++ u1 ++ u2) = (Inr u3, w3)"
      "agent_invoke E w state = Some (Inr (state ++ u1 ++ u2 ++ u3), w3)"
  | (abandoned) u1 w1 u2 w2 u3 w3 where
      "query_node E (enter generate_sql w) state = (Inr u1, w1)"
      "execute_node E (enter run_query w1) (state ++ u1) = (Inr u2, w2)"
      "error_in (state ++ u1 ++ u2)"
      "error_handling_node E (enter handle_error w2) (state ++ u1 ++ u2) = (Inr u3, w3)"
      "agent_invoke E w state = Some (Inr (gave_up (state ++ u1 ++ u2 ++ u3)), enter final_error w3)"
proof (cases rule: agent_invoke_cases [of E w state])
  case (generate_raises e w1)
  from query_node_raises [OF generate_raises(1)] assms(1) show ?thesis by simp
next
  case (explained u1 w1 u2 w2 u3 w3)
  then show ?thesis by (rule that(1))
next
  case (repair_raises u1 w1 u2 w2 e w3)
  from error_handling_node_raises [OF repair_raises(4)] assms repair_raises(3) show ?thesis
    by (auto simp: error_in_def dest: merge_keeps)
next
  case (abandoned u1 w1 u2 w2 u3 w3)
  then show ?thesis by (rule that(2))
qed

lemma execute_node_error_text:
  assumes "execute_node E w state = (Inr update, w')" and "update ''error'' = Some e"
  shows "e \<noteq> []"
  using assms
  by (auto simp: execute_node_def str_exn_def split: prod.splits option.splits sum.splits if_splits)

lemma not_error_in_merge:
  "\<not> error_in (state ++ update) \<Longrightarrow> update ''error'' = None \<and> \<not> error_in state"
  by (simp add: error_in_def map_add_def split: option.splits)

subsection \<open>Runs on the stand-ins\<close>

lemma run_first_success:
  "agent_invoke stub_env
     \<lparr>llm_state = [''SELECT 1'', ''SELECT 2''], db_state = d, prompts = ps, executed = xs,
      schema_fetches = n, visited = vs\<rparr>
     (initial_state q sch) =
   Some (Inr (gave_up (initial_state q sch ++ [''sql'' \<mapsto> ''SELECT 1'']
                ++ [''result'' \<mapsto> ''1''] ++ [''sql'' \<mapsto> ''SELECT 2''])),
         \<lparr>llm_state = [], db_state = Suc d,
          prompts = ps @ [QUERY_PROMPT sch q, ERROR_HANDLING_PROMPT [] sch q ''SELECT 1''],
          executed = xs @ [''SELECT 1''], schema_fetches = Suc (Suc n),
          visited = vs @ [generate_sql, run_query, handle_error, final_error]\<rparr>)"
  apply (simp add: agent_invoke_def stub_env_def)
  apply (simp add: invoke_generate_sql query_node_def schema_of_def get_schema_def llm_call_def
      scripted_llm_def enter_def initial_state_def strip_def isspace_def whitespace_def)
  apply (simp add: invoke_run_query execute_node_def statements_of_def db_run_def plain_chain_def stub_db_def
      enter_def strip_def isspace_def whitespace_def error_in_def)
  apply (simp add: invoke_handle_error error_in_def error_handling_node_def schema_of_def
      get_schema_def llm_call_def scripted_llm_def enter_def strip_def isspace_def whitespace_def)
  apply (simp add: invoke_final_error gave_up_def enter_def)
  done

lemma run_repaired:
  "agent_invoke stub_env
     \<lparr>llm_state = [''SELEC 1'', ''SELECT 1''], db_state = d, prompts = ps, executed = xs,
      schema_fetches = n, visited = vs\<rparr>
     (initial_state q sch) =
   Some (Inr (gave_up (initial_state q sch ++ [''sql'' \<mapsto> ''SELEC 1'']
                ++ [''error'' \<mapsto> ''Error executing statement: SELEC 1'' @ nl @ ''Error: syntax error'']
                ++ [''sql'' \<mapsto> ''SELECT 1''])),
         \<lparr>llm_state = [], db_state = d,
          prompts = ps @ [QUERY_PROMPT sch q,
                          ERROR_HANDLING_PROMPT
                            (''Error executing statement: SELEC 1'' @ nl @ ''Error: syntax error'')
                            sch q ''SELEC 1''],
          executed = xs @ [''SELEC 1''], schema_fetches = Suc (Suc n),
          visited = vs @ [generate_sql, run_query, handle_error, final_error]\<rparr>)"
  apply (simp add: agent_invoke_def stub_env_def)
  apply (simp add: invoke_generate_sql query_node_def schema_of_def get_schema_def llm_call_def
      scripted_llm_def enter_def initial_state_def strip_def isspace_def whitespace_def)
  apply (simp add: invoke_run_query execute_node_def statements_of_def db_run_def plain_chain_def stub_db_def
      enter_def strip_def isspace_def whitespace_def error_in_def)
  apply (simp add: invoke_handle_error error_in_def error_handling_node_def schema_of_def
      get_schema_def llm_call_def scripted_llm_def enter_def strip_def isspace_def whitespace_def)
  apply (simp add: invoke_final_error gave_up_def enter_def)
  done

lemma run_blank:
  "agent_invoke stub_env
     \<lparr>llm_state = [], db_state = d, prompts = ps, executed = xs,
      schema_fetches = n, visited = vs\<rparr>
     (initial_state q sch) =
   Some (Inr (gave_up (initial_state q sch ++ [''error'' \<mapsto> ''No SQL query generated'']
                ++ [''result'' \<mapsto> []]
                ++ [''error'' \<mapsto> ''Failed to generate corrected query''])),
         \<lparr>llm_state = [], db_state = d,
          prompts = ps @ [QUERY_PROMPT sch q,
                          ERROR_HANDLING_PROMPT ''No SQL query generated'' sch q []],
          executed = xs, schema_fetches = Suc (Suc n),
          visited = vs @ [generate_sql, run_query, handle_error, final_error]\<rparr>)"
  apply (simp add: agent_invoke_def stub_env_def)
  apply (simp add: invoke_generate_sql query_node_def schema_of_def get_schema_def llm_call_def
      scripted_llm_def enter_def initial_state_def strip_def isspace_def whitespace_def)
  apply (simp add: invoke_run_query execute_node_def statements_of_def db_run_def plain_chain_def stub_db_def
      enter_def strip_def isspace_def whitespace_def error_in_def)
  apply (simp add: invoke_handle_error error_in_def error_handling_node_def schema_of_def
      get_schema_def llm_call_def scripted_llm_def enter_def strip_def isspace_def whitespace_def)
  apply (simp add: invoke_final_error gave_up_def enter_def)
  done

subsection \<open>The state of \<^verbatim>\<open>main\<close>, the keys no node writes, the prompts\<close>

lemma abandoned_frame:
  assumes "query_node E wq sq = (Inr u1, w1)"
    and "execute_node E wx sx = (Inr u2, w2)"
    and "error_handling_node E wh sh = (Inr u3, w3)"
    and "k \<noteq> ''sql''" and "k \<noteq> ''error''" and "k \<noteq> ''result''"
  shows "gave_up (state ++ u1 ++ u2 ++ u3) k = state k"
  using query_node_update [OF assms(1)] execute_node_update [of E wx sx]
    error_handling_node_update [OF assms(3)] assms(2,4,5,6)
  by (auto simp: gave_up_def map_add_def)

lemma ask_stub:
  "ask stub_env (fresh script) q =
     agent_invoke stub_env
       \<lparr>llm_state = script, db_state = 0, prompts = [], executed = [],
        schema_fetches = Suc 0, visited = []\<rparr>
       (initial_state q ''t(a)'')"
  by (simp add: ask_def get_schema_def stub_env_def fresh_def)

lemma initial_state_keys:
  "initial_state q sch ''query'' = Some q" "initial_state q sch ''sql'' = Some []"
  "initial_state q sch ''result'' = Some []" "initial_state q sch ''explanation'' = Some []"
  "initial_state q sch ''schema'' = Some sch" "initial_state q sch ''error'' = Some []"
  by (simp_all add: initial_state_def)

lemma statements_of_empty: "statements_of [] = []"
  by (simp add: statements_of_def strip_def)

lemma execute_node_blank:
  assumes "state ''sql'' = Some []"
  shows "execute_node E w state = (Inr [''result'' \<mapsto> []], w)"
  using assms by (simp add: execute_node_def statements_of_empty)

lemma query_node_blank:
  assumes "state ''query'' = Some q" and "state ''schema'' = Some sch"
    and "strip (fst (llm_invoke E (llm_state w) (QUERY_PROMPT sch q))) = []"
  shows "fst (query_node E w state) = Inr [''error'' \<mapsto> ''No SQL query generated'']"
  using assms
  by (cases "llm_invoke E (llm_state w) (QUERY_PROMPT sch q)")
     (simp add: query_node_def schema_of_def get_schema_def llm_call_def)

lemma explained_frame:
  assumes "query_node E wq sq = (Inr u1, w1)"
    and "execute_node E wx sx = (Inr u2, w2)"
    and "explain_node E wh sh = (Inr u3, w3)"
    and "k \<noteq> ''sql''" and "k \<noteq> ''error''" and "k \<noteq> ''result''" and "k \<noteq> ''explanation''"
  shows "(state ++ u1 ++ u2 ++ u3) k = state k"
  using query_node_update [OF assms(1)] execute_node_update [of E wx sx]
    explain_node_update [OF assms(3)] assms(2,4,5,6,7)
  by (auto simp: map_add_def)

lemma node_action_frame:
  assumes "node_action n E w state = (Inr u, w')"
  shows "u ''query'' = None \<and> u ''schema'' = None"
proof (cases n)
  case generate_sql
  with assms query_node_update [of E w state u w'] show ?thesis by auto
next
  case run_query
  with assms execute_node_update [of E w state] show ?thesis by auto
next
  case explain_query
  with assms explain_node_update [of E w state u w'] show ?thesis by auto
next
  case handle_error
  with assms error_handling_node_update [of E w state u w'] show ?thesis by auto
next
  case final_error
  with assms show ?thesis by (auto simp: final_error_node_def)
qed

lemma query_node_prompts:
  assumes "query_node E w state = (r, w')"
    and "state ''query'' = Some q" and "state ''schema'' = Some sch"
  shows "prompts w' = prompts w @ [QUERY_PROMPT sch q]"
  using assms
  by (auto simp: query_node_def schema_of_def get_schema_def llm_call_def
           split: prod.splits if_splits)

lemma error_handling_node_prompts:
  assumes "error_handling_node E w state = (r, w')"
    and "state ''query'' = Some q" and "state ''schema'' = Some sch"
  shows "prompts w' = prompts w \<and> isl r
         \<or> prompts w' = prompts w @ [ERROR_HANDLING_PROMPT (the (state ''error'')) sch q
                                          (the (state ''sql''))] \<and> \<not> isl r"
  using assms
  by (auto simp: error_handling_node_def schema_of_def get_schema_def llm_call_def
           split: prod.splits option.splits if_splits)

lemma explain_node_prompts:
  assumes "explain_node E w state = (Inr u, w')"
  shows "\<exists>x. prompts w' = prompts w @ [EXPLANATION_PROMPT x]"
  using assms
  by (auto simp: explain_node_def llm_call_def split: prod.splits option.splits)

lemma enter_fields:
  "prompts (enter n w) = prompts w" "executed (enter n w) = executed w"
  "db_state (enter n w) = db_state w" "llm_state (enter n w) = llm_state w"
  "schema_fetches (enter n w) = schema_fetches w" "visited (enter n w) = visited w @ [n]"
  by (simp_all add: enter_def)

lemma merge_other_key:
  "update k = None \<Longrightarrow> (state ++ update) k = state k"
  by (simp add: map_add_def)

lemma rest_explanation:
  "\<forall>p \<in> set [EXPLANATION_PROMPT x].
      (\<exists>e y. p = ERROR_HANDLING_PROMPT e sch q y) \<or> (\<exists>y. p = EXPLANATION_PROMPT y)"
proof (intro ballI disjI2)
  fix p assume "p \<in> set [EXPLANATION_PROMPT x]"
  then have "p = EXPLANATION_PROMPT x" by simp
  then show "\<exists>y. p = EXPLANATION_PROMPT y" by (rule exI)
qed

lemma rest_repair:
  "\<forall>p \<in> set [ERROR_HANDLING_PROMPT e sch q x].
      (\<exists>e y. p = ERROR_HANDLING_PROMPT e sch q y) \<or> (\<exists>y. p = EXPLANATION_PROMPT y)"
proof (intro ballI disjI1)
  fix p assume "p \<in> set [ERROR_HANDLING_PROMPT e sch q x]"
  then have "p = ERROR_HANDLING_PROMPT e sch q x" by simp
  then show "\<exists>e y. p = ERROR_HANDLING_PROMPT e sch q y" by (intro exI)
qed

lemma run_prompts:
  assumes q: "state ''query'' = Some q" and s: "state ''schema'' = Some sch"
  shows "\<exists>r w' u1 w1 r2 w2 sent rest.
             agent_invoke E w state = Some (r, w')
           \<and> (\<forall>s'. r = Inr s' \<longrightarrow> s' ''query'' = Some q \<and> s' ''schema'' = Some sch)
           \<and> query_node E (enter generate_sql w) state = (Inr u1, w1)
           \<and> execute_node E (enter run_query w1) (state ++ u1) = (r2, w2)
           \<and> prompts w2 = prompts w1 @ sent
           \<and> prompts w' = prompts w @ [QUERY_PROMPT sch q] @ sent @ rest
           \<and> (\<forall>p \<in> set rest. (\<exists>e x. p = ERROR_HANDLING_PROMPT e sch q x)
                                \<or> (\<exists>x. p = EXPLANATION_PROMPT x))"
proof (cases rule: agent_invoke_cases [of E w state])
  case (generate_raises e w1)
  from query_node_raises [OF generate_raises(1)] q show ?thesis by simp
next
  case (explained u1 w1 u2 w2 u3 w3)
  have frame: "\<forall>s'. Inr (state ++ u1 ++ u2 ++ u3) = Inr s' \<longrightarrow>
                 s' ''query'' = Some q \<and> s' ''schema'' = Some sch"
    using explained_frame [OF explained(1,2,4), of _ state] q s by simp
  from execute_node_world(2) [OF explained(2)] obtain sent where
    sent: "prompts w2 = prompts w1 @ sent" by (auto simp: enter_fields)
  from explain_node_prompts [OF explained(4)] obtain x where
    "prompts w3 = prompts (enter explain_query w2) @ [EXPLANATION_PROMPT x]" by (elim exE)
  with query_node_prompts [OF explained(1) q s] sent
  have log: "prompts w3 = prompts w @ [QUERY_PROMPT sch q] @ sent @ [EXPLANATION_PROMPT x]"
    by (simp add: enter_fields)
  from explained(5) frame explained(1,2) sent log rest_explanation [of x sch q] show ?thesis
    by (intro exI [of _ "Inr (state ++ u1 ++ u2 ++ u3)"] exI [of _ w3] exI [of _ u1]
          exI [of _ w1] exI [of _ "Inr u2"] exI [of _ w2] exI [of _ sent]
          exI [of _ "[EXPLANATION_PROMPT x]"] conjI)
next
  case (repair_raises u1 w1 u2 w2 e w3)
  have keys: "(state ++ u1 ++ u2) ''query'' = Some q" "(state ++ u1 ++ u2) ''schema'' = Some sch"
    using node_action_frame [of generate_sql E "enter generate_sql w" state u1 w1]
      node_action_frame [of run_query E "enter run_query w1" "state ++ u1" u2 w2]
      repair_raises(1,2) q s
    by (simp_all add: merge_other_key)
  from execute_node_world(2) [OF repair_raises(2)] obtain sent where
    sent: "prompts w2 = prompts w1 @ sent" by (auto simp: enter_fields)
  from error_handling_node_prompts [OF repair_raises(4) keys]
  have "prompts w3 = prompts (enter handle_error w2)" by auto
  with query_node_prompts [OF repair_raises(1) q s] sent
  have log: "prompts w3 = prompts w @ [QUERY_PROMPT sch q] @ sent @ []"
    by (simp add: enter_fields)
  have frame: "\<forall>s'. Inl e = Inr s' \<longrightarrow> s' ''query'' = Some q \<and> s' ''schema'' = Some sch"
    by simp
  have none: "\<forall>p \<in> set ([] :: string list). (\<exists>e x. p = ERROR_HANDLING_PROMPT e sch q x)
                                \<or> (\<exists>x. p = EXPLANATION_PROMPT x)" by simp
  from repair_raises(5) frame repair_raises(1,2) sent log none show ?thesis
    by (intro exI [of _ "Inl e"] exI [of _ w3] exI [of _ u1]
          exI [of _ w1] exI [of _ "Inr u2"] exI [of _ w2] exI [of _ sent]
          exI [of _ "[]"] conjI)
next
  case (abandoned u1 w1 u2 w2 u3 w3)
  have frame: "\<forall>s'. Inr (gave_up (state ++ u1 ++ u2 ++ u3)) = Inr s' \<longrightarrow>
                 s' ''query'' = Some q \<and> s' ''schema'' = Some sch"
    using abandoned_frame [OF abandoned(1,2,4), of _ state] q s by simp
  have keys: "(state ++ u1 ++ u2) ''query'' = Some q" "(state ++ u1 ++ u2) ''schema'' = Some sch"
    using node_action_frame [of generate_sql E "enter generate_sql w" state u1 w1]
      node_action_frame [of run_query E "enter run_query w1" "state ++ u1" u2 w2]
      abandoned(1,2) q s
    by (simp_all add: merge_other_key)
  from execute_node_world(2) [OF abandoned(2)] obtain sent where
    sent: "prompts w2 = prompts w1 @ sent" by (auto simp: enter_fields)
  define e where "e = the ((state ++ u1 ++ u2) ''error'')"
  define x where "x = the ((state ++ u1 ++ u2) ''sql'')"
  from error_handling_node_prompts [OF abandoned(4) keys]
  have "prompts w3 = prompts (enter handle_error w2) @ [ERROR_HANDLING_PROMPT e sch q x]"
    by (simp add: e_def x_def)
  with query_node_prompts [OF abandoned(1) q s] sent
  have log: "prompts (enter final_error w3)
               = prompts w @ [QUERY_PROMPT sch q] @ sent @ [ERROR_HANDLING_PROMPT e sch q x]"
    by (simp add: enter_fields)
  from abandoned(5) frame abandoned(1,2) sent log rest_repair [of e sch q x] show ?thesis
    by (intro exI [of _ "Inr (gave_up (state ++ u1 ++ u2 ++ u3))"]
          exI [of _ "enter final_error w3"] exI [of _ u1]
          exI [of _ w1] exI [of _ "Inr u2"] exI [of _ w2] exI [of _ sent]
          exI [of _ "[ERROR_HANDLING_PROMPT e sch q x]"] conjI)
qed

lemma query_node_llm_state:
  assumes "query_node E w state = (r, w')"
    and "state ''query'' = Some q" and "state ''schema'' = Some sch"
  shows "llm_state w' = snd (llm_invoke E (llm_state w) (QUERY_PROMPT sch q))"
  using assms
  by (auto simp: query_node_def schema_of_def get_schema_def llm_call_def
           split: prod.splits if_splits)

lemma error_handling_node_blank:
  assumes "state ''error'' = Some e" and "state ''query'' = Some q"
    and "state ''sql'' = Some x" and "state ''schema'' = Some sch"
    and "strip (fst (llm_invoke E (llm_state w) (ERROR_HANDLING_PROMPT e sch q x))) = []"
  shows "fst (error_handling_node E w state) = Inr [''error'' \<mapsto> ''Failed to generate corrected query'']"
  using assms
  by (cases "llm_invoke E (llm_state w) (ERROR_HANDLING_PROMPT e sch q x)")
     (simp add: error_handling_node_def schema_of_def get_schema_def llm_call_def)

subsection \<open>One execution attempt per run\<close>

lemma execute_node_writes_one:
  "\<exists>u w'. execute_node E w state = (Inr u, w') \<and> (dom u = {''result''} \<or> dom u = {''error''})"
  using execute_node_update [of E w state] by auto

lemma query_node_sql:
  assumes "query_node E w state = (Inr u, w')" and "u ''error'' = None"
  shows "\<exists>sql. sql \<noteq> [] \<and> (state ++ u) ''sql'' = Some sql"
  using query_node_update [OF assms(1)] assms(2) by auto

lemma run_once:
  "\<exists>r w' path. agent_invoke E w state = Some (r, w') \<and> visited w' = visited w @ path
      \<and> count_list path run_query \<le> 1
      \<and> (handle_error \<in> set path \<longrightarrow>
            (\<forall>s'. r = Inr s' \<longrightarrow> last path = final_error
                       \<and> (\<exists>e. s' ''error'' = Some (''Final error: '' @ e))))"
proof (cases rule: agent_invoke_cases [of E w state])
  case (generate_raises e w1)
  then show ?thesis
    using query_node_world(1) [OF generate_raises(1)]
    by (intro exI [of _ "Inl e"] exI [of _ w1] exI [of _ "[generate_sql]"]) (simp add: enter_def)
next
  case (explained u1 w1 u2 w2 u3 w3)
  then show ?thesis
    using path_explained [OF explained(1,2,4)]
    by (intro exI [of _ "Inr (state ++ u1 ++ u2 ++ u3)"] exI [of _ w3]
         exI [of _ "[generate_sql, run_query, explain_query]"]) simp
next
  case (repair_raises u1 w1 u2 w2 e w3)
  then show ?thesis
    using path_abandoned(2) [OF repair_raises(1,2,4)]
    by (intro exI [of _ "Inl e"] exI [of _ w3]
         exI [of _ "[generate_sql, run_query, handle_error]"]) simp
next
  case (abandoned u1 w1 u2 w2 u3 w3)
  then show ?thesis
    using path_abandoned(1) [OF abandoned(1,2,4)] gave_up_error [of "state ++ u1 ++ u2 ++ u3"]
    by (intro exI [of _ "Inr (gave_up (state ++ u1 ++ u2 ++ u3))"] exI [of _ "enter final_error w3"]
         exI [of _ "[generate_sql, run_query, handle_error, final_error]"]) simp
qed

subsection \<open>Splitting and stripping\<close>

lemma split_not_Nil: "split sep s \<noteq> []"
  by (induction s) (auto split: list.splits)

lemma join_Cons: "rest \<noteq> [] \<Longrightarrow> join sep (x # rest) = x @ sep @ join sep rest"
  by (cases rest) simp_all

lemma join_split: "join [sep] (split sep s) = s"
proof (induction s)
  case Nil
  show ?case by simp
next
  case (Cons c cs)
  obtain frag frags where parts: "split sep cs = frag # frags"
    using split_not_Nil [of sep cs] by (cases "split sep cs") auto
  show ?case
  proof (cases "c = sep")
    case True
    with Cons show ?thesis by (simp add: join_Cons split_not_Nil)
  next
    case False
    with Cons parts show ?thesis by (cases frags) simp_all
  qed
qed

lemma split_no_sep: "frag \<in> set (split sep s) \<Longrightarrow> sep \<notin> set frag"
proof (induction s arbitrary: frag)
  case Nil
  then show ?case by simp
next
  case (Cons c cs)
  then show ?case
    by (cases "split sep cs") (auto split: if_splits)
qed

lemma split_without_sep: "sep \<notin> set s \<Longrightarrow> split sep s = [s]"
  by (induction s) auto

lemma strip_Nil_iff: "strip s = [] \<longleftrightarrow> (\<forall>c \<in> set s. isspace c)"
proof
  assume "strip s = []"
  then have all: "\<forall>c \<in> set (dropWhile isspace s). isspace c"
    by (simp add: strip_def dropWhile_eq_Nil_conv)
  have "dropWhile isspace s = []"
  proof (rule ccontr)
    assume ne: "dropWhile isspace s \<noteq> []"
    then have "\<not> isspace (hd (dropWhile isspace s))" by (rule hd_dropWhile)
    with ne all show False by (cases "dropWhile isspace s") auto
  qed
  then show "\<forall>c \<in> set s. isspace c" by (simp add: dropWhile_eq_Nil_conv)
next
  assume "\<forall>c \<in> set s. isspace c"
  then have "dropWhile isspace s = []" by simp
  then show "strip s = []" by (simp add: strip_def del: dropWhile_eq_Nil_conv)
qed

lemma statements_of_words:
  "statements_of sql =
     map strip (filter (\<lambda>frag. \<exists>c \<in> set frag. \<not> isspace c) (split CHR '';'' sql))"
  by (simp add: statements_of_def strip_Nil_iff)

lemma statements_of_without_semicolon:
  assumes "CHR '';'' \<notin> set sql"
  shows "statements_of sql = (if strip sql = [] then [] else [strip sql])"
  using assms by (simp add: statements_of_def split_without_sep)

subsection \<open>The loop over the statements against its reference\<close>

lemma db_after_Cons:
  "db_after E w (stmt # rest) = db_after E (snd (db_run E w stmt)) rest"
  by (simp add: db_after_def)

lemma outcome_0: "outcome E w (stmt # rest) 0 = fst (db_run E w stmt)"
  by (simp add: outcome_def db_after_def)

lemma outcome_Suc:
  "outcome E w (stmt # rest) (Suc i) = outcome E (snd (db_run E w stmt)) rest i"
  by (simp add: outcome_def db_after_Cons)

lemma run_statements_in_order:
  assumes "run_statements E w acc stmts = (r, w')"
  shows "(\<exists>outs. length outs = length stmts
            \<and> (\<forall>i<length stmts. outcome E w stmts i = Inr (outs ! i))
            \<and> r = Inr (acc @ outs)
            \<and> executed w' = executed w @ stmts
            \<and> w' = db_after E w stmts)
       \<or> (\<exists>k msg. k < length stmts
            \<and> (\<forall>i<k. \<exists>out. outcome E w stmts i = Inr out)
            \<and> outcome E w stmts k = Inl msg
            \<and> r = Inl (stmts ! k, msg)
            \<and> executed w' = executed w @ take (Suc k) stmts
            \<and> w' = db_after E w (take (Suc k) stmts))"
  using assms
proof (induction stmts arbitrary: w acc)
  case Nil
  then show ?case by (simp add: db_after_def)
next
  case (Cons stmt rest)
  obtain x w1 where run: "db_run E w stmt = (x, w1)"
    by (cases "db_run E w stmt")
  from db_run_world [OF run] have log: "executed w1 = executed w @ [stmt]" by simp
  show ?case
  proof (cases x)
    case (Inl msg)
    with Cons.prems run have "r = Inl (stmt, msg)" and "w' = w1" by simp_all
    with run log Inl have "0 < length (stmt # rest)
            \<and> (\<forall>i<0. \<exists>out. outcome E w (stmt # rest) i = Inr out)
            \<and> outcome E w (stmt # rest) 0 = Inl msg
            \<and> r = Inl ((stmt # rest) ! 0, msg)
            \<and> executed w' = executed w @ take (Suc 0) (stmt # rest)
            \<and> w' = db_after E w (take (Suc 0) (stmt # rest))"
      by (simp add: outcome_0 db_after_def)
    then show ?thesis by blast
  next
    case (Inr out)
    with Cons.prems run have "run_statements E w1 (acc @ [out]) rest = (r, w')" by simp
    from Cons.IH [OF this] show ?thesis
    proof
      assume "\<exists>outs. length outs = length rest
            \<and> (\<forall>i<length rest. outcome E w1 rest i = Inr (outs ! i))
            \<and> r = Inr ((acc @ [out]) @ outs)
            \<and> executed w' = executed w1 @ rest
            \<and> w' = db_after E w1 rest"
      then obtain outs where outs: "length outs = length rest"
        "\<forall>i<length rest. outcome E w1 rest i = Inr (outs ! i)"
        "r = Inr ((acc @ [out]) @ outs)" "executed w' = executed w1 @ rest"
        "w' = db_after E w1 rest"
        by (elim exE conjE)
      have "\<forall>i<length (stmt # rest).
              outcome E w (stmt # rest) i = Inr ((out # outs) ! i)"
      proof (intro allI impI)
        fix i assume "i < length (stmt # rest)"
        with outs(2) run Inr show "outcome E w (stmt # rest) i = Inr ((out # outs) ! i)"
          by (cases i) (simp_all add: outcome_0 outcome_Suc)
      qed
      with outs run log have "length (out # outs) = length (stmt # rest)
            \<and> (\<forall>i<length (stmt # rest).
                   outcome E w (stmt # rest) i = Inr ((out # outs) ! i))
            \<and> r = Inr (acc @ (out # outs))
            \<and> executed w' = executed w @ (stmt # rest)
            \<and> w' = db_after E w (stmt # rest)"
        by (simp add: db_after_Cons)
      then show ?thesis by blast
    next
      assume "\<exists>k msg. k < length rest
            \<and> (\<forall>i<k. \<exists>out. outcome E w1 rest i = Inr out)
            \<and> outcome E w1 rest k = Inl msg
            \<and> r = Inl (rest ! k, msg)
            \<and> executed w' = executed w1 @ take (Suc k) rest
            \<and> w' = db_after E w1 (take (Suc k) rest)"
      then obtain k msg where k: "k < length rest"
        "\<forall>i<k. \<exists>out. outcome E w1 rest i = Inr out"
        "outcome E w1 rest k = Inl msg" "r = Inl (rest ! k, msg)"
        "executed w' = executed w1 @ take (Suc k) rest"
        "w' = db_after E w1 (take (Suc k) rest)"
        by (elim exE conjE)
      have "\<forall>i<Suc k. \<exists>out. outcome E w (stmt # rest) i = Inr out"
      proof (intro allI impI)
        fix i assume "i < Suc k"
        with k(2) run Inr show "\<exists>out. outcome E w (stmt # rest) i = Inr out"
          by (cases i) (simp_all add: outcome_0 outcome_Suc)
      qed
      with k run log have "Suc k < length (stmt # rest)
            \<and> (\<forall>i<Suc k. \<exists>out. outcome E w (stmt # rest) i = Inr out)
            \<and> outcome E w (stmt # rest) (Suc k) = Inl msg
            \<and> r = Inl ((stmt # rest) ! Suc k, msg)
            \<and> executed w' = executed w @ take (Suc (Suc k)) (stmt # rest)
            \<and> w' = db_after E w (take (Suc (Suc k)) (stmt # rest))"
        by (simp add: db_after_Cons outcome_Suc)
      then show ?thesis by blast
    qed
  qed
qed

lemma execute_node_in_order:
  assumes "state ''sql'' = Some sql"
  shows "\<exists>u w'. execute_node E w state = (Inr u, w')
     \<and> ((\<exists>outs. length outs = length (statements_of sql)
            \<and> (\<forall>i<length (statements_of sql).
                   outcome E w (statements_of sql) i = Inr (outs ! i))
            \<and> u = [''result'' \<mapsto> join nl outs]
            \<and> executed w' = executed w @ statements_of sql
            \<and> w' = db_after E w (statements_of sql))
        \<or> (\<exists>k msg. k < length (statements_of sql)
            \<and> (\<forall>i<k. \<exists>out. outcome E w (statements_of sql) i = Inr out)
            \<and> outcome E w (statements_of sql) k = Inl msg
            \<and> u = [''error'' \<mapsto> ''Error executing statement: '' @ statements_of sql ! k
                                    @ nl @ ''Error: '' @ msg]
            \<and> executed w' = executed w @ take (Suc k) (statements_of sql)
            \<and> w' = db_after E w (take (Suc k) (statements_of sql))))"
proof -
  obtain r w' where run: "run_statements E w [] (statements_of sql) = (r, w')"
    by (cases "run_statements E w [] (statements_of sql)")
  from run_statements_in_order [OF run] show ?thesis
  proof
    assume "\<exists>outs. length outs = length (statements_of sql)
            \<and> (\<forall>i<length (statements_of sql).
                   outcome E w (statements_of sql) i = Inr (outs ! i))
            \<and> r = Inr ([] @ outs)
            \<and> executed w' = executed w @ statements_of sql
            \<and> w' = db_after E w (statements_of sql)"
    then obtain outs where outs: "length outs = length (statements_of sql)"
      "\<forall>i<length (statements_of sql).
          outcome E w (statements_of sql) i = Inr (outs ! i)"
      "r = Inr ([] @ outs)" "executed w' = executed w @ statements_of sql"
      "w' = db_after E w (statements_of sql)"
      by (elim exE conjE)
    from assms run outs(3)
    have "execute_node E w state = (Inr [''result'' \<mapsto> join nl outs], w')"
      by (simp add: execute_node_def)
    with outs show ?thesis
      by (intro exI [of _ "[''result'' \<mapsto> join nl outs]"] exI [of _ w'] conjI disjI1
            exI [of _ outs]) simp_all
  next
    assume "\<exists>k msg. k < length (statements_of sql)
            \<and> (\<forall>i<k. \<exists>out. outcome E w (statements_of sql) i = Inr out)
            \<and> outcome E w (statements_of sql) k = Inl msg
            \<and> r = Inl (statements_of sql ! k, msg)
            \<and> executed w' = executed w @ take (Suc k) (statements_of sql)
            \<and> w' = db_after E w (take (Suc k) (statements_of sql))"
    then obtain k msg where k: "k < length (statements_of sql)"
      "\<forall>i<k. \<exists>out. outcome E w (statements_of sql) i = Inr out"
      "outcome E w (statements_of sql) k = Inl msg"
      "r = Inl (statements_of sql ! k, msg)"
      "executed w' = executed w @ take (Suc k) (statements_of sql)"
      "w' = db_after E w (take (Suc k) (statements_of sql))"
      by (elim exE conjE)
    from assms run k(4)
    have "execute_node E w state =
            (Inr [''error'' \<mapsto> ''Error executing statement: '' @ statements_of sql ! k
                                    @ nl @ ''Error: '' @ msg], w')"
      by (simp add: execute_node_def)
    with k show ?thesis
      by (intro exI [of _ "[''error'' \<mapsto> ''Error executing statement: '' @ statements_of sql ! k
                                    @ nl @ ''Error: '' @ msg]"] exI [of _ w'] conjI disjI2
            exI [of _ k] exI [of _ msg]) simp_all
  qed
qed

lemma statements_select_1_2:
  "statements_of ''SELECT 1; SELECT 2;'' = [''SELECT 1'', ''SELECT 2'']"
  by (simp add: statements_of_def strip_def isspace_def whitespace_def)

subsection \<open>Two runs side by side\<close>

lemma same_answer:
  assumes "\<forall>l l' p. fst (llm_invoke E l p) = fst (llm_invoke E l' p)"
    and "llm_invoke E l p = (c, m)" and "llm_invoke E l' p = (c', m')"
  shows "c = c'"
proof -
  from assms(1) have "fst (llm_invoke E l p) = fst (llm_invoke E l' p)" by (elim allE)
  with assms(2,3) show ?thesis by simp
qed

lemma llm_call_deterministic:
  assumes "\<forall>l l' p. fst (llm_invoke E l p) = fst (llm_invoke E l' p)"
    and "db_state w = db_state w'"
    and "llm_call E w p = (c, v)" and "llm_call E w' p = (c', v')"
  shows "c = c' \<and> db_state v = db_state v'"
proof -
  obtain a m where x: "llm_invoke E (llm_state w) p = (a, m)"
    by (cases "llm_invoke E (llm_state w) p")
  obtain a' m' where y: "llm_invoke E (llm_state w') p = (a', m')"
    by (cases "llm_invoke E (llm_state w') p")
  from same_answer [OF assms(1) x y] assms(2,3,4) x y show ?thesis
    by (auto simp: llm_call_def)
qed

lemma schema_of_deterministic:
  assumes "db_state w = db_state w'"
    and "schema_of E w state = (sch, v)" and "schema_of E w' state = (sch', v')"
  shows "sch = sch' \<and> db_state v = db_state v'"
  using assms by (auto simp: schema_of_def get_schema_def split: option.splits)

lemma query_node_deterministic:
  assumes det: "\<forall>l l' p. fst (llm_invoke E l p) = fst (llm_invoke E l' p)"
    and db: "db_state w = db_state w'"
    and run: "query_node E w state = (r, v)" and run': "query_node E w' state = (r', v')"
  shows "r = r' \<and> db_state v = db_state v'"
proof -
  obtain sch w1 where s: "schema_of E w state = (sch, w1)" by (cases "schema_of E w state")
  obtain sch' w1' where s': "schema_of E w' state = (sch', w1')" by (cases "schema_of E w' state")
  from schema_of_deterministic [OF db s s'] have sch: "sch' = sch" and db1: "db_state w1 = db_state w1'"
    by simp_all
  show ?thesis
  proof (cases "state ''query''")
    case None
    with run run' s s' db1 show ?thesis by (simp add: query_node_def)
  next
    case (Some q)
    obtain c w2 where l: "llm_call E w1 (QUERY_PROMPT sch q) = (c, w2)"
      by (cases "llm_call E w1 (QUERY_PROMPT sch q)")
    obtain c' w2' where l': "llm_call E w1' (QUERY_PROMPT sch q) = (c', w2')"
      by (cases "llm_call E w1' (QUERY_PROMPT sch q)")
    from llm_call_deterministic [OF det db1 l l'] run run' s s' sch Some l l' show ?thesis
      by (auto simp: query_node_def split: if_splits)
  qed
qed

lemma error_handling_node_deterministic:
  assumes det: "\<forall>l l' p. fst (llm_invoke E l p) = fst (llm_invoke E l' p)"
    and db: "db_state w = db_state w'"
    and run: "error_handling_node E w state = (r, v)"
    and run': "error_handling_node E w' state = (r', v')"
  shows "r = r' \<and> db_state v = db_state v'"
proof -
  obtain sch w1 where s: "schema_of E w state = (sch, w1)" by (cases "schema_of E w state")
  obtain sch' w1' where s': "schema_of E w' state = (sch', w1')" by (cases "schema_of E w' state")
  from schema_of_deterministic [OF db s s'] have sch: "sch' = sch" and db1: "db_state w1 = db_state w1'"
    by simp_all
  show ?thesis
  proof (cases "\<exists>e q x. state ''error'' = Some e \<and> state ''query'' = Some q \<and> state ''sql'' = Some x")
    case False
    with run run' s s' db1 show ?thesis
      by (auto simp: error_handling_node_def split: option.splits)
  next
    case True
    then obtain e q x where keys: "state ''error'' = Some e" "state ''query'' = Some q"
      "state ''sql'' = Some x" by (elim exE conjE)
    obtain c w2 where l: "llm_call E w1 (ERROR_HANDLING_PROMPT e sch q x) = (c, w2)"
      by (cases "llm_call E w1 (ERROR_HANDLING_PROMPT e sch q x)")
    obtain c' w2' where l': "llm_call E w1' (ERROR_HANDLING_PROMPT e sch q x) = (c', w2')"
      by (cases "llm_call E w1' (ERROR_HANDLING_PROMPT e sch q x)")
    from llm_call_deterministic [OF det db1 l l'] run run' s s' sch keys l l' show ?thesis
      by (auto simp: error_handling_node_def split: if_splits)
  qed
qed

lemma run_chain_deterministic:
  assumes det: "\<forall>l l' p. fst (llm_invoke E l p) = fst (llm_invoke E l' p)"
    and "db_state w = db_state w'"
    and "run_chain E c w = (r, v)" and "run_chain E c w' = (r', v')"
  shows "r = r' \<and> db_state v = db_state v'"
  using assms(2,3,4)
proof (induction c arbitrary: w w')
  case (Invoke prompt k)
  obtain a w1 where x: "llm_call E w prompt = (a, w1)" by (cases "llm_call E w prompt")
  obtain a' w1' where y: "llm_call E w' prompt = (a', w1')" by (cases "llm_call E w' prompt")
  from llm_call_deterministic [OF det Invoke.prems(1) x y]
  have same: "a' = a" and db: "db_state w1 = db_state w1'" by simp_all
  from Invoke.prems(2,3) x y same
  have "run_chain E (k a) w1 = (r, v)" and "run_chain E (k a) w1' = (r', v')" by simp_all
  with db show ?case by (rule Invoke.IH [OF rangeI])
next
  case (Get_table_info k)
  define w1 where "w1 = w\<lparr>schema_fetches := Suc (schema_fetches w)\<rparr>"
  define w1' where "w1' = w'\<lparr>schema_fetches := Suc (schema_fetches w')\<rparr>"
  from Get_table_info.prems
  have "run_chain E (k (get_table_info E (db_state w))) w1 = (r, v)"
    and "run_chain E (k (get_table_info E (db_state w))) w1' = (r', v')"
    by (simp_all add: get_schema_def w1_def w1'_def)
  moreover from Get_table_info.prems(1) have "db_state w1 = db_state w1'"
    by (simp add: w1_def w1'_def)
  ultimately show ?case by (intro Get_table_info.IH [OF rangeI])
next
  case (Db_run query k)
  obtain rows d where db: "db_execute E (db_state w) query = (rows, d)"
    by (cases "db_execute E (db_state w) query")
  with Db_run.prems
  have "run_chain E (k rows) (w\<lparr>db_state := d\<rparr>) = (r, v)"
    and "run_chain E (k rows) (w'\<lparr>db_state := d\<rparr>) = (r', v')"
    by simp_all
  moreover have "db_state (w\<lparr>db_state := d\<rparr>) = db_state (w'\<lparr>db_state := d\<rparr>)" by simp
  ultimately show ?case by (intro Db_run.IH [OF rangeI])
next
  case (Return answer)
  then show ?case by auto
next
  case (Raise msg)
  then show ?case by auto
qed

lemma db_run_deterministic:
  assumes det: "\<forall>l l' p. fst (llm_invoke E l p) = fst (llm_invoke E l' p)"
    and "db_state w = db_state w'"
    and "db_run E w stmt = (r, v)" and "db_run E w' stmt = (r', v')"
  shows "r = r' \<and> db_state v = db_state v'"
proof -
  from assms(2)
  have "db_state (w\<lparr>executed := executed w @ [stmt]\<rparr>)
          = db_state (w'\<lparr>executed := executed w' @ [stmt]\<rparr>)" by simp
  from run_chain_deterministic [OF det this] assms(3,4) show ?thesis
    by (simp add: db_run_def)
qed

lemma run_statements_deterministic:
  assumes det: "\<forall>l l' p. fst (llm_invoke E l p) = fst (llm_invoke E l' p)"
    and "db_state w = db_state w'"
    and "run_statements E w acc stmts = (r, v)" and "run_statements E w' acc stmts = (r', v')"
  shows "r = r' \<and> db_state v = db_state v'"
  using assms(2,3,4)
proof (induction stmts arbitrary: w w' acc)
  case Nil
  then show ?case by simp
next
  case (Cons stmt rest)
  obtain x w1 where a: "db_run E w stmt = (x, w1)" by (cases "db_run E w stmt")
  obtain x' w1' where b: "db_run E w' stmt = (x', w1')" by (cases "db_run E w' stmt")
  from db_run_deterministic [OF det Cons.prems(1) a b]
  have same: "x' = x" and db1: "db_state w1 = db_state w1'" by simp_all
  show ?case
  proof (cases x)
    case (Inl msg)
    with Cons.prems a b same db1 show ?thesis by simp
  next
    case (Inr out)
    with Cons.prems a b same have "run_statements E w1 (acc @ [out]) rest = (r, v)"
      and "run_statements E w1' (acc @ [out]) rest = (r', v')" by simp_all
    with db1 show ?thesis by (rule Cons.IH)
  qed
qed

lemma execute_node_deterministic:
  assumes det: "\<forall>l l' p. fst (llm_invoke E l p) = fst (llm_invoke E l' p)"
    and db: "db_state w = db_state w'"
    and run: "execute_node E w state = (r, v)" and run': "execute_node E w' state = (r', v')"
  shows "r = r' \<and> db_state v = db_state v'"
proof (cases "state ''sql''")
  case None
  with db run run' show ?thesis by (simp add: execute_node_def)
next
  case (Some sql)
  obtain x w1 where a: "run_statements E w [] (statements_of sql) = (x, w1)"
    by (cases "run_statements E w [] (statements_of sql)")
  obtain x' w1' where b: "run_statements E w' [] (statements_of sql) = (x', w1')"
    by (cases "run_statements E w' [] (statements_of sql)")
  from run_statements_deterministic [OF det db a b] run run' Some a b show ?thesis
    by (auto simp: execute_node_def split: sum.splits)
qed

lemma agent_invoke_deterministic:
  assumes det: "\<forall>l l' p. fst (llm_invoke E l p) = fst (llm_invoke E l' p)"
    and db: "db_state w = db_state w'"
  shows "\<exists>s v v'. agent_invoke E w (initial_state q sch) = Some (Inr s, v)
           \<and> agent_invoke E w' (initial_state q sch) = Some (Inr s, v')
           \<and> db_state v = db_state v'"
proof -
  have q: "initial_state q sch ''query'' \<noteq> None" and s: "initial_state q sch ''sql'' \<noteq> None"
    by (simp_all add: initial_state_keys)
  have err: "\<And>u1 u2. error_in (initial_state q sch ++ u1 ++ u2)"
    by (intro error_in_merge) (simp add: error_in_def initial_state_keys)
  from q s show ?thesis
  proof (cases rule: agent_invoke_keys_cases [where E = E and w = w])
    case (explained u1 w1 u2 w2 u3 w3)
    with err show ?thesis by simp
  next
    case first: (abandoned u1 w1 u2 w2 u3 w3)
    from q s show ?thesis
    proof (cases rule: agent_invoke_keys_cases [where E = E and w = w'])
      case (explained v1 x1 v2 x2 v3 x3)
      with err show ?thesis by simp
    next
      case second: (abandoned v1 x1 v2 x2 v3 x3)
      from db have "db_state (enter generate_sql w) = db_state (enter generate_sql w')"
        by (simp add: enter_fields)
      from query_node_deterministic [OF det this first(1) second(1)]
      have u1: "v1 = u1" and db1: "db_state (enter run_query w1) = db_state (enter run_query x1)"
        by (simp_all add: enter_fields)
      from execute_node_deterministic [OF det db1 first(2)] second(2) u1
      have u2: "v2 = u2" and db2: "db_state (enter handle_error w2) = db_state (enter handle_error x2)"
        by (simp_all add: enter_fields)
      from error_handling_node_deterministic [OF det db2 first(4)] second(4) u1 u2
      have u3: "v3 = u3" and db3: "db_state (enter final_error w3) = db_state (enter final_error x3)"
        by (simp_all add: enter_fields)
      from first(5) second(5) u1 u2 u3 db3 show ?thesis by simp
    qed
  qed
qed

lemma run_steady:
  "agent_invoke steady_env
     \<lparr>llm_state = c, db_state = d, prompts = ps, executed = xs,
      schema_fetches = n, visited = vs\<rparr>
     (initial_state q sch) =
   Some (Inr (gave_up (initial_state q sch ++ [''sql'' \<mapsto> ''SELECT 1'']
                ++ [''result'' \<mapsto> ''1''] ++ [''sql'' \<mapsto> ''SELECT 1''])),
         \<lparr>llm_state = Suc (Suc c), db_state = d,
          prompts = ps @ [QUERY_PROMPT sch q, ERROR_HANDLING_PROMPT [] sch q ''SELECT 1''],
          executed = xs @ [''SELECT 1''], schema_fetches = Suc (Suc n),
          visited = vs @ [generate_sql, run_query, handle_error, final_error]\<rparr>)"
  apply (simp add: agent_invoke_def steady_env_def)
  apply (simp add: invoke_generate_sql query_node_def schema_of_def get_schema_def llm_call_def
      enter_def initial_state_def strip_def isspace_def whitespace_def)
  apply (simp add: invoke_run_query execute_node_def statements_of_def db_run_def plain_chain_def
      enter_def strip_def isspace_def whitespace_def error_in_def)
  apply (simp add: invoke_handle_error error_in_def error_handling_node_def schema_of_def
      get_schema_def llm_call_def enter_def strip_def isspace_def whitespace_def)
  apply (simp add: invoke_final_error gave_up_def enter_def)
  done

lemma run_wired:
  "agent_invoke wired_env
     \<lparr>llm_state = c, db_state = d, prompts = ps, executed = xs,
      schema_fetches = n, visited = vs\<rparr>
     (initial_state q sch) =
   Some (Inr (gave_up (initial_state q sch ++ [''sql'' \<mapsto> ''SELECT 1'']
                ++ [''result'' \<mapsto> ''SELECT 1''] ++ [''sql'' \<mapsto> ''SELECT 1''])),
         \<lparr>llm_state = Suc (Suc (Suc (Suc c))), db_state = d,
          prompts = ps @ [QUERY_PROMPT sch q,
                          ''Schema: t(a)'' @ nl @ ''Question: SELECT 1'',
                          ''Result: 1'',
                          ERROR_HANDLING_PROMPT [] sch q ''SELECT 1''],
          executed = xs @ [''SELECT 1''], schema_fetches = Suc (Suc (Suc n)),
          visited = vs @ [generate_sql, run_query, handle_error, final_error]\<rparr>)"
  apply (simp add: agent_invoke_def wired_env_def steady_env_def)
  apply (simp add: invoke_generate_sql query_node_def schema_of_def get_schema_def llm_call_def
      enter_def initial_state_def strip_def isspace_def whitespace_def)
  apply (simp add: invoke_run_query execute_node_def statements_of_def db_run_def wired_chain_def
      get_schema_def llm_call_def enter_def strip_def isspace_def whitespace_def error_in_def)
  apply (simp add: invoke_handle_error error_in_def error_handling_node_def schema_of_def
      get_schema_def llm_call_def enter_def strip_def isspace_def whitespace_def)
  apply (simp add: invoke_final_error gave_up_def enter_def)
  done

subsection \<open>What the steps report\<close>

text \<open>
  The update of the generation step and of the repair step in terms of the answer of the
  model to the prompt of the step, and the update of the execution step when the chain
  raises on a statement after it returned on the statements before it.
\<close>

lemma query_node_answer:
  assumes "state ''query'' = Some q"
  shows "fst (query_node E w state) =
           Inr (if strip (fst (llm_invoke E (llm_state w)
                                 (QUERY_PROMPT (fst (schema_of E w state)) q))) = []
                then [''error'' \<mapsto> ''No SQL query generated'']
                else [''sql'' \<mapsto> strip (fst (llm_invoke E (llm_state w)
                                 (QUERY_PROMPT (fst (schema_of E w state)) q)))])"
  using assms
  by (cases "llm_invoke E (llm_state w) (QUERY_PROMPT (fst (schema_of E w state)) q)")
     (simp add: query_node_def schema_of_def get_schema_def llm_call_def)

lemma error_handling_node_answer:
  assumes "state ''error'' = Some e" and "state ''query'' = Some q" and "state ''sql'' = Some x"
  shows "fst (error_handling_node E w state) =
           Inr (if strip (fst (llm_invoke E (llm_state w)
                                 (ERROR_HANDLING_PROMPT e (fst (schema_of E w state)) q x))) = []
                then [''error'' \<mapsto> ''Failed to generate corrected query'']
                else [''sql'' \<mapsto> strip (fst (llm_invoke E (llm_state w)
                                 (ERROR_HANDLING_PROMPT e (fst (schema_of E w state)) q x)))])"
  using assms
  by (cases "llm_invoke E (llm_state w) (ERROR_HANDLING_PROMPT e (fst (schema_of E w state)) q x)")
     (simp add: error_handling_node_def schema_of_def get_schema_def llm_call_def)

lemma execute_node_rejected:
  assumes sql: "state ''sql'' = Some x"
    and k: "k < length (statements_of x)"
    and before: "\<forall>i<k. \<exists>out. outcome E w (statements_of x) i = Inr out"
    and at: "outcome E w (statements_of x) k = Inl msg"
  shows "fst (execute_node E w state) =
           Inr [''error'' \<mapsto> ''Error executing statement: '' @ statements_of x ! k
                                @ nl @ ''Error: '' @ msg]"
proof -
  from execute_node_in_order [where state = state and sql = x and E = E and w = w, OF sql]
  obtain u w' where run: "execute_node E w state = (Inr u, w')"
    and cases: "(\<exists>outs. length outs = length (statements_of x)
            \<and> (\<forall>i<length (statements_of x). outcome E w (statements_of x) i = Inr (outs ! i))
            \<and> u = [''result'' \<mapsto> join nl outs]
            \<and> executed w' = executed w @ statements_of x
            \<and> w' = db_after E w (statements_of x))
        \<or> (\<exists>j m. j < length (statements_of x)
            \<and> (\<forall>i<j. \<exists>out. outcome E w (statements_of x) i = Inr out)
            \<and> outcome E w (statements_of x) j = Inl m
            \<and> u = [''error'' \<mapsto> ''Error executing statement: '' @ statements_of x ! j
                                    @ nl @ ''Error: '' @ m]
            \<and> executed w' = executed w @ take (Suc j) (statements_of x)
            \<and> w' = db_after E w (take (Suc j) (statements_of x)))"
    by (elim exE conjE)
  from cases have "u = [''error'' \<mapsto> ''Error executing statement: '' @ statements_of x ! k
                                @ nl @ ''Error: '' @ msg]"
  proof
    assume "\<exists>outs. length outs = length (statements_of x)
            \<and> (\<forall>i<length (statements_of x). outcome E w (statements_of x) i = Inr (outs ! i))
            \<and> u = [''result'' \<mapsto> join nl outs]
            \<and> executed w' = executed w @ statements_of x
            \<and> w' = db_after E w (statements_of x)"
    then obtain outs where
      "\<forall>i<length (statements_of x). outcome E w (statements_of x) i = Inr (outs ! i)"
      by (elim exE conjE)
    with k have "outcome E w (statements_of x) k = Inr (outs ! k)" by simp
    with at show ?thesis by simp
  next
    assume "\<exists>j m. j < length (statements_of x)
            \<and> (\<forall>i<j. \<exists>out. outcome E w (statements_of x) i = Inr out)
            \<and> outcome E w (statements_of x) j = Inl m
            \<and> u = [''error'' \<mapsto> ''Error executing statement: '' @ statements_of x ! j
                                    @ nl @ ''Error: '' @ m]
            \<and> executed w' = executed w @ take (Suc j) (statements_of x)
            \<and> w' = db_after E w (take (Suc j) (statements_of x))"
    then obtain j m where j: "\<forall>i<j. \<exists>out. outcome E w (statements_of x) i = Inr out"
      "outcome E w (statements_of x) j = Inl m"
      "u = [''error'' \<mapsto> ''Error executing statement: '' @ statements_of x ! j
                                    @ nl @ ''Error: '' @ m]"
      by (elim exE conjE)
    have "j = k"
    proof (rule ccontr)
      assume "j \<noteq> k"
      then consider "j < k" | "k < j" by linarith
      then show False
      proof cases
        case 1
        with before have "\<exists>out. outcome E w (statements_of x) j = Inr out" by simp
        with j(2) show False by simp
      next
        case 2
        with j(1) have "\<exists>out. outcome E w (statements_of x) k = Inr out" by simp
        with at show False by simp
      qed
    qed
    with j(2,3) at show ?thesis by simp
  qed
  with run show ?thesis by simp
qed

lemma enter_collaborators:
  "llm_state (enter n w) = llm_state w"
  "fst (schema_of E (enter n w) state) = fst (schema_of E w state)"
  by (simp_all add: schema_of_def get_schema_def enter_def split: option.splits)

section \<open>The claims\<close>

subsection \<open>Bounded repair\<close>



subsection \<open>Failures reach the caller as error text\<close>

text \<open>
  C7, as stated, fails: not every run of the graph ends in a state. On a state without the
  key \<^verbatim>\<open>sql\<close>, blank text from the model at the generation step leaves the key out; the
  execution step catches the missing key and reports it as an error, and the repair step,
  which reads \<^verbatim>\<open>state['sql']\<close> outside any \<^verbatim>\<open>try\<close>, raises \<^verbatim>\<open>KeyError\<close> to the
  caller of the graph.
\<close>

theorem missing_sql_key_reaches_the_caller:
  "map_option fst (agent_invoke stub_env (fresh [])
       [''query'' \<mapsto> ''how many'', ''schema'' \<mapsto> ''t(a)''])
     = Some (Inl (KeyError ''sql''))"
  apply (simp add: agent_invoke_def stub_env_def fresh_def)
  apply (simp add: invoke_generate_sql query_node_def schema_of_def get_schema_def llm_call_def
      scripted_llm_def enter_def strip_def)
  apply (simp add: invoke_run_query execute_node_def str_exn_def enter_def error_in_def)
  apply (simp add: invoke_handle_error error_in_def error_handling_node_def schema_of_def
      get_schema_def llm_call_def scripted_llm_def enter_def)
  done

text \<open>
  C7, amended. On a state that has the keys \<^verbatim>\<open>query\<close> and \<^verbatim>\<open>sql\<close>, as the state of
  \<^verbatim>\<open>main\<close> has, no node raises and the graph returns a state. The generation step
  reports \<^verbatim>\<open>No SQL query generated\<close> when the answer of the model to the generation
  prompt is blank, and sets \<^verbatim>\<open>sql\<close> to the stripped answer otherwise. When the chain
  raises on a statement of the \<^verbatim>\<open>sql\<close> the execution step sees, after it returned on the
  statements before it, the execution step reports an error that carries that statement and
  the message. When either step reports an error, the run goes through \<^verbatim>\<open>handle_error\<close>
  to \<^verbatim>\<open>final_error\<close>; the repair step reports \<^verbatim>\<open>Failed to generate corrected query\<close>
  when the answer of the model to the repair prompt is blank and sets \<^verbatim>\<open>sql\<close> otherwise,
  and the \<^verbatim>\<open>error\<close> of the state returned is \<^verbatim>\<open>Final error: \<close> followed by the
  report of the repair step when there is one, and by the error the earlier steps reported,
  which is not empty, otherwise. The model and the schema introspection are taken to return.
\<close>

theorem failures_end_as_error_text:
  assumes "state ''query'' = Some q" and "state ''sql'' = Some sql0"
  shows "\<exists>u1 w1 u2 w2 s' w'.
      query_node E (enter generate_sql w) state = (Inr u1, w1)
    \<and> u1 = (if strip (fst (llm_invoke E (llm_state w)
                          (QUERY_PROMPT (fst (schema_of E w state)) q))) = []
            then [''error'' \<mapsto> ''No SQL query generated'']
            else [''sql'' \<mapsto> strip (fst (llm_invoke E (llm_state w)
                          (QUERY_PROMPT (fst (schema_of E w state)) q)))])
    \<and> execute_node E (enter run_query w1) (state ++ u1) = (Inr u2, w2)
    \<and> (\<forall>x k msg. (state ++ u1) ''sql'' = Some x \<and> k < length (statements_of x)
           \<and> (\<forall>i<k. \<exists>out. outcome E (enter run_query w1) (statements_of x) i = Inr out)
           \<and> outcome E (enter run_query w1) (statements_of x) k = Inl msg
         \<longrightarrow> u2 = [''error'' \<mapsto> ''Error executing statement: '' @ statements_of x ! k
                                  @ nl @ ''Error: '' @ msg])
    \<and> agent_invoke E w state = Some (Inr s', w')
    \<and> (u1 ''error'' \<noteq> None \<or> u2 ''error'' \<noteq> None \<longrightarrow>
         visited w' = visited w @ [generate_sql, run_query, handle_error, final_error]
         \<and> (\<exists>u3 w3 e x a.
               error_handling_node E (enter handle_error w2) (state ++ u1 ++ u2) = (Inr u3, w3)
             \<and> (state ++ u1 ++ u2) ''error'' = Some e \<and> e \<noteq> []
             \<and> (state ++ u1 ++ u2) ''sql'' = Some x
             \<and> a = fst (llm_invoke E (llm_state w2)
                         (ERROR_HANDLING_PROMPT e (fst (schema_of E w2 (state ++ u1 ++ u2))) q x))
             \<and> u3 = (if strip a = [] then [''error'' \<mapsto> ''Failed to generate corrected query'']
                     else [''sql'' \<mapsto> strip a])
             \<and> s' ''error'' = Some (''Final error: '' @
                   (if strip a = [] then ''Failed to generate corrected query'' else e))))"
proof -
  have keys: "state ''query'' \<noteq> None" "state ''sql'' \<noteq> None" using assms by simp_all
  have pin1: "\<And>u1 w1. query_node E (enter generate_sql w) state = (Inr u1, w1) \<Longrightarrow>
      u1 = (if strip (fst (llm_invoke E (llm_state w)
                          (QUERY_PROMPT (fst (schema_of E w state)) q))) = []
            then [''error'' \<mapsto> ''No SQL query generated'']
            else [''sql'' \<mapsto> strip (fst (llm_invoke E (llm_state w)
                          (QUERY_PROMPT (fst (schema_of E w state)) q)))])"
    using query_node_answer [where state = state and q = q and E = E and w = "enter generate_sql w", OF assms(1)]
    by (simp add: enter_collaborators)
  have pin2: "\<And>u1 w1 u2 w2. execute_node E (enter run_query w1) (state ++ u1) = (Inr u2, w2) \<Longrightarrow>
      \<forall>x k msg. (state ++ u1) ''sql'' = Some x \<and> k < length (statements_of x)
           \<and> (\<forall>i<k. \<exists>out. outcome E (enter run_query w1) (statements_of x) i = Inr out)
           \<and> outcome E (enter run_query w1) (statements_of x) k = Inl msg
         \<longrightarrow> u2 = [''error'' \<mapsto> ''Error executing statement: '' @ statements_of x ! k
                                  @ nl @ ''Error: '' @ msg]"
  proof (intro allI impI)
    fix u1 w1 u2 w2 x k msg
    assume run: "execute_node E (enter run_query w1) (state ++ u1) = (Inr u2, w2)"
      and h: "(state ++ u1) ''sql'' = Some x \<and> k < length (statements_of x)
           \<and> (\<forall>i<k. \<exists>out. outcome E (enter run_query w1) (statements_of x) i = Inr out)
           \<and> outcome E (enter run_query w1) (statements_of x) k = Inl msg"
    from h have a: "(state ++ u1) ''sql'' = Some x" and b: "k < length (statements_of x)"
      and c: "\<forall>i<k. \<exists>out. outcome E (enter run_query w1) (statements_of x) i = Inr out"
      and d: "outcome E (enter run_query w1) (statements_of x) k = Inl msg"
      by simp_all
    from execute_node_rejected [where state = "state ++ u1" and x = x and E = E
        and w = "enter run_query w1", OF a b c d] run
    show "u2 = [''error'' \<mapsto> ''Error executing statement: '' @ statements_of x ! k
                                  @ nl @ ''Error: '' @ msg]"
      by simp
  qed
  from keys show ?thesis
  proof (cases rule: agent_invoke_keys_cases [where E = E and w = w])
    case (explained u1 w1 u2 w2 u3 w3)
    from not_error_in_merge [OF explained(3)] have "u2 ''error'' = None" and "\<not> error_in (state ++ u1)"
      by simp_all
    with not_error_in_merge [of state u1] have none: "\<not> (u1 ''error'' \<noteq> None \<or> u2 ''error'' \<noteq> None)"
      by simp
    have route: "u1 ''error'' \<noteq> None \<or> u2 ''error'' \<noteq> None \<longrightarrow>
         visited w3 = visited w @ [generate_sql, run_query, handle_error, final_error]
         \<and> (\<exists>u3' w3' e' x' a'.
               error_handling_node E (enter handle_error w2) (state ++ u1 ++ u2) = (Inr u3', w3')
             \<and> (state ++ u1 ++ u2) ''error'' = Some e' \<and> e' \<noteq> []
             \<and> (state ++ u1 ++ u2) ''sql'' = Some x'
             \<and> a' = fst (llm_invoke E (llm_state w2)
                         (ERROR_HANDLING_PROMPT e' (fst (schema_of E w2 (state ++ u1 ++ u2))) q x'))
             \<and> u3' = (if strip a' = [] then [''error'' \<mapsto> ''Failed to generate corrected query'']
                     else [''sql'' \<mapsto> strip a'])
             \<and> (state ++ u1 ++ u2 ++ u3) ''error'' = Some (''Final error: '' @
                   (if strip a' = [] then ''Failed to generate corrected query'' else e')))"
      by (rule impI) (rule notE [OF none])
    from explained(1) pin1 [OF explained(1)] explained(2) pin2 [OF explained(2)] explained(5) route
    show ?thesis
      by (intro exI [of _ u1] exI [of _ w1] exI [of _ u2] exI [of _ w2]
            exI [of _ "state ++ u1 ++ u2 ++ u3"] exI [of _ w3] conjI)
  next
    case (abandoned u1 w1 u2 w2 u3 w3)
    have path: "visited (enter final_error w3) =
                  visited w @ [generate_sql, run_query, handle_error, final_error]"
      by (rule path_abandoned(1) [OF abandoned(1,2,4)])
    from abandoned(3) obtain e where e: "(state ++ u1 ++ u2) ''error'' = Some e"
      by (cases "(state ++ u1 ++ u2) ''error''") (simp_all add: error_in_def del: map_add_Some_iff)
    from assms(2) have "(state ++ u1 ++ u2) ''sql'' \<noteq> None"
      by (intro merge_keeps) simp
    then obtain x where x: "(state ++ u1 ++ u2) ''sql'' = Some x"
      by (cases "(state ++ u1 ++ u2) ''sql''") (simp_all del: map_add_Some_iff)
    have qq: "(state ++ u1 ++ u2) ''query'' = Some q"
      using node_action_frame [of generate_sql E "enter generate_sql w" state u1 w1]
        node_action_frame [of run_query E "enter run_query w1" "state ++ u1" u2 w2]
        abandoned(1,2) assms(1)
      by (simp add: merge_other_key)
    define a where "a = fst (llm_invoke E (llm_state w2)
                         (ERROR_HANDLING_PROMPT e (fst (schema_of E w2 (state ++ u1 ++ u2))) q x))"
    from error_handling_node_answer [where state = "state ++ u1 ++ u2" and e = e and q = q and x = x and E = E and w = "enter handle_error w2", OF e qq x] abandoned(4)
    have u3: "u3 = (if strip a = [] then [''error'' \<mapsto> ''Failed to generate corrected query'']
                     else [''sql'' \<mapsto> strip a])"
      by (simp add: enter_collaborators a_def)
    from u3 e have final: "gave_up (state ++ u1 ++ u2 ++ u3) ''error'' = Some (''Final error: '' @
                   (if strip a = [] then ''Failed to generate corrected query'' else e))"
      by (simp add: gave_up_def map_add_def)
    have nonempty: "u1 ''error'' \<noteq> None \<or> u2 ''error'' \<noteq> None \<longrightarrow> e \<noteq> []"
    proof
      assume failed: "u1 ''error'' \<noteq> None \<or> u2 ''error'' \<noteq> None"
      show "e \<noteq> []"
      proof (cases "u2 ''error''")
        case (Some t)
        with execute_node_error_text [OF abandoned(2) Some] e show ?thesis
          by (simp add: map_add_def)
      next
        case None
        with failed have "u1 ''error'' \<noteq> None" by simp
        with query_node_update [OF abandoned(1)]
        have "u1 ''error'' = Some ''No SQL query generated''" by auto
        with None e show ?thesis by (auto simp: map_add_def)
      qed
    qed
    have route: "u1 ''error'' \<noteq> None \<or> u2 ''error'' \<noteq> None \<longrightarrow>
         visited (enter final_error w3) = visited w @ [generate_sql, run_query, handle_error, final_error]
         \<and> (\<exists>u3' w3' e' x' a'.
               error_handling_node E (enter handle_error w2) (state ++ u1 ++ u2) = (Inr u3', w3')
             \<and> (state ++ u1 ++ u2) ''error'' = Some e' \<and> e' \<noteq> []
             \<and> (state ++ u1 ++ u2) ''sql'' = Some x'
             \<and> a' = fst (llm_invoke E (llm_state w2)
                         (ERROR_HANDLING_PROMPT e' (fst (schema_of E w2 (state ++ u1 ++ u2))) q x'))
             \<and> u3' = (if strip a' = [] then [''error'' \<mapsto> ''Failed to generate corrected query'']
                     else [''sql'' \<mapsto> strip a'])
             \<and> gave_up (state ++ u1 ++ u2 ++ u3) ''error'' = Some (''Final error: '' @
                   (if strip a' = [] then ''Failed to generate corrected query'' else e')))"
    proof
      assume "u1 ''error'' \<noteq> None \<or> u2 ''error'' \<noteq> None"
      with nonempty have ne: "e \<noteq> []" by (rule mp)
      from abandoned(4) e ne x a_def u3 final
      have "\<exists>u3' w3' e' x' a'.
               error_handling_node E (enter handle_error w2) (state ++ u1 ++ u2) = (Inr u3', w3')
             \<and> (state ++ u1 ++ u2) ''error'' = Some e' \<and> e' \<noteq> []
             \<and> (state ++ u1 ++ u2) ''sql'' = Some x'
             \<and> a' = fst (llm_invoke E (llm_state w2)
                         (ERROR_HANDLING_PROMPT e' (fst (schema_of E w2 (state ++ u1 ++ u2))) q x'))
             \<and> u3' = (if strip a' = [] then [''error'' \<mapsto> ''Failed to generate corrected query'']
                     else [''sql'' \<mapsto> strip a'])
             \<and> gave_up (state ++ u1 ++ u2 ++ u3) ''error'' = Some (''Final error: '' @
                   (if strip a' = [] then ''Failed to generate corrected query'' else e'))"
        by (intro exI [of _ u3] exI [of _ w3] exI [of _ e] exI [of _ x] exI [of _ a] conjI)
      with path show "visited (enter final_error w3) = visited w @ [generate_sql, run_query, handle_error, final_error]
         \<and> (\<exists>u3' w3' e' x' a'.
               error_handling_node E (enter handle_error w2) (state ++ u1 ++ u2) = (Inr u3', w3')
             \<and> (state ++ u1 ++ u2) ''error'' = Some e' \<and> e' \<noteq> []
             \<and> (state ++ u1 ++ u2) ''sql'' = Some x'
             \<and> a' = fst (llm_invoke E (llm_state w2)
                         (ERROR_HANDLING_PROMPT e' (fst (schema_of E w2 (state ++ u1 ++ u2))) q x'))
             \<and> u3' = (if strip a' = [] then [''error'' \<mapsto> ''Failed to generate corrected query'']
                     else [''sql'' \<mapsto> strip a'])
             \<and> gave_up (state ++ u1 ++ u2 ++ u3) ''error'' = Some (''Final error: '' @
                   (if strip a' = [] then ''Failed to generate corrected query'' else e')))"
        by (rule conjI)
    qed
    from abandoned(1) pin1 [OF abandoned(1)] abandoned(2) pin2 [OF abandoned(2)] abandoned(5) route
    show ?thesis
      by (intro exI [of _ u1] exI [of _ w1] exI [of _ u2] exI [of _ w2]
            exI [of _ "gave_up (state ++ u1 ++ u2 ++ u3)"] exI [of _ "enter final_error w3"] conjI)
  qed
qed

theorem failures_end_as_error_text_witness:
  "field_of ''error'' (agent_invoke stub_env (fresh [[], ''SELECT 1''])
       (initial_state ''how many'' ''t(a)''))
     = Some ''Final error: No SQL query generated''
   \<and> field_of ''error'' (agent_invoke stub_env (fresh [''SELEC 1'', ''SELECT 1''])
       (initial_state ''how many'' ''t(a)''))
     = Some (''Final error: Error executing statement: SELEC 1'' @ nl @ ''Error: syntax error'')
   \<and> field_of ''error'' (agent_invoke stub_env (fresh [])
       (initial_state ''how many'' ''t(a)''))
     = Some ''Final error: Failed to generate corrected query''"
proof -
  let ?s = "initial_state ''how many'' ''t(a)''"
  have q: "?s ''query'' = Some ''how many''" and s: "?s ''sql'' = Some []"
    by (simp_all add: initial_state_def)
  note claim = failures_end_as_error_text [where state = ?s and q = "''how many''"
      and ?sql0.0 = "[]" and E = stub_env, OF q s]
  have empty_generation:
    "field_of ''error'' (agent_invoke stub_env (fresh [[], ''SELECT 1'']) ?s)
       = Some ''Final error: No SQL query generated''"
  proof -
    let ?w = "fresh [[], ''SELECT 1'']"
    from claim [of ?w] obtain u1 w1 u2 w2 s' w' where
      n1: "query_node stub_env (enter generate_sql ?w) ?s = (Inr u1, w1)"
      and n2: "execute_node stub_env (enter run_query w1) (?s ++ u1) = (Inr u2, w2)"
      and run: "agent_invoke stub_env ?w ?s = Some (Inr s', w')"
      and failed: "u1 ''error'' \<noteq> None \<or> u2 ''error'' \<noteq> None \<longrightarrow>
         visited w' = visited ?w @ [generate_sql, run_query, handle_error, final_error]
         \<and> (\<exists>u3 w3 e x a.
               error_handling_node stub_env (enter handle_error w2) (?s ++ u1 ++ u2) = (Inr u3, w3)
             \<and> (?s ++ u1 ++ u2) ''error'' = Some e \<and> e \<noteq> []
             \<and> (?s ++ u1 ++ u2) ''sql'' = Some x
             \<and> a = fst (llm_invoke stub_env (llm_state w2)
                         (ERROR_HANDLING_PROMPT e (fst (schema_of stub_env w2 (?s ++ u1 ++ u2)))
                            ''how many'' x))
             \<and> u3 = (if strip a = [] then [''error'' \<mapsto> ''Failed to generate corrected query'']
                     else [''sql'' \<mapsto> strip a])
             \<and> s' ''error'' = Some (''Final error: '' @
                   (if strip a = [] then ''Failed to generate corrected query'' else e)))"
      by (elim exE conjE)
    from n1 have u1: "u1 = [''error'' \<mapsto> ''No SQL query generated'']"
      and w1: "w1 = \<lparr>llm_state = [''SELECT 1''], db_state = 0,
                     prompts = [QUERY_PROMPT ''t(a)'' ''how many''], executed = [],
                     schema_fetches = 1, visited = [generate_sql]\<rparr>"
      by (auto simp: query_node_def schema_of_def get_schema_def llm_call_def stub_env_def
            scripted_llm_def fresh_def enter_def initial_state_def strip_def)
    from n2 have u2: "u2 = [''result'' \<mapsto> []]" and l2: "llm_state w2 = [''SELECT 1'']"
      unfolding u1 w1
      by (auto simp: execute_node_def statements_of_def enter_def initial_state_def strip_def)
    from u1 have "u1 ''error'' \<noteq> None \<or> u2 ''error'' \<noteq> None" by simp
    from failed [THEN mp, OF this] obtain e x a where
      e: "(?s ++ u1 ++ u2) ''error'' = Some e"
      and a: "a = fst (llm_invoke stub_env (llm_state w2)
                         (ERROR_HANDLING_PROMPT e (fst (schema_of stub_env w2 (?s ++ u1 ++ u2)))
                            ''how many'' x))"
      and final: "s' ''error'' = Some (''Final error: '' @
                   (if strip a = [] then ''Failed to generate corrected query'' else e))"
      by (elim exE conjE)
    from e have "e = ''No SQL query generated''"
      by (simp add: u1 u2 initial_state_def)
    moreover from a have "a = ''SELECT 1''"
      by (simp add: l2 stub_env_def scripted_llm_def)
    ultimately have "s' ''error'' = Some ''Final error: No SQL query generated''"
      using final by (simp add: strip_def isspace_def whitespace_def)
    with run show ?thesis by (simp add: field_of_def)
  qed
  have execution_failure:
    "field_of ''error'' (agent_invoke stub_env (fresh [''SELEC 1'', ''SELECT 1'']) ?s)
       = Some (''Final error: Error executing statement: SELEC 1'' @ nl @ ''Error: syntax error'')"
  proof -
    let ?w = "fresh [''SELEC 1'', ''SELECT 1'']"
    from claim [of ?w] obtain u1 w1 u2 w2 s' w' where
      n1: "query_node stub_env (enter generate_sql ?w) ?s = (Inr u1, w1)"
      and n2: "execute_node stub_env (enter run_query w1) (?s ++ u1) = (Inr u2, w2)"
      and rejected: "\<forall>x k msg. (?s ++ u1) ''sql'' = Some x \<and> k < length (statements_of x)
           \<and> (\<forall>i<k. \<exists>out. outcome stub_env (enter run_query w1) (statements_of x) i = Inr out)
           \<and> outcome stub_env (enter run_query w1) (statements_of x) k = Inl msg
         \<longrightarrow> u2 = [''error'' \<mapsto> ''Error executing statement: '' @ statements_of x ! k
                                  @ nl @ ''Error: '' @ msg]"
      and run: "agent_invoke stub_env ?w ?s = Some (Inr s', w')"
      and failed: "u1 ''error'' \<noteq> None \<or> u2 ''error'' \<noteq> None \<longrightarrow>
         visited w' = visited ?w @ [generate_sql, run_query, handle_error, final_error]
         \<and> (\<exists>u3 w3 e x a.
               error_handling_node stub_env (enter handle_error w2) (?s ++ u1 ++ u2) = (Inr u3, w3)
             \<and> (?s ++ u1 ++ u2) ''error'' = Some e \<and> e \<noteq> []
             \<and> (?s ++ u1 ++ u2) ''sql'' = Some x
             \<and> a = fst (llm_invoke stub_env (llm_state w2)
                         (ERROR_HANDLING_PROMPT e (fst (schema_of stub_env w2 (?s ++ u1 ++ u2)))
                            ''how many'' x))
             \<and> u3 = (if strip a = [] then [''error'' \<mapsto> ''Failed to generate corrected query'']
                     else [''sql'' \<mapsto> strip a])
             \<and> s' ''error'' = Some (''Final error: '' @
                   (if strip a = [] then ''Failed to generate corrected query'' else e)))"
      by (elim exE conjE)
    from n1 have u1: "u1 = [''sql'' \<mapsto> ''SELEC 1'']"
      and w1: "w1 = \<lparr>llm_state = [''SELECT 1''], db_state = 0,
                     prompts = [QUERY_PROMPT ''t(a)'' ''how many''], executed = [],
                     schema_fetches = 1, visited = [generate_sql]\<rparr>"
      by (auto simp: query_node_def schema_of_def get_schema_def llm_call_def stub_env_def
            scripted_llm_def fresh_def enter_def initial_state_def strip_def isspace_def
            whitespace_def)
    have stmts: "statements_of ''SELEC 1'' = [''SELEC 1'']"
      by (simp add: statements_of_def strip_def isspace_def whitespace_def)
    have "(?s ++ u1) ''sql'' = Some ''SELEC 1'' \<and> 0 < length (statements_of ''SELEC 1'')
           \<and> (\<forall>i<0. \<exists>out. outcome stub_env (enter run_query w1) (statements_of ''SELEC 1'') i
                               = Inr out)
           \<and> outcome stub_env (enter run_query w1) (statements_of ''SELEC 1'') 0
               = Inl ''syntax error''"
      by (simp add: u1 stmts outcome_def db_after_def db_run_def plain_chain_def stub_env_def
            stub_db_def)
    from rejected [THEN spec, THEN spec, THEN spec, THEN mp, OF this]
    have u2: "u2 = [''error'' \<mapsto> ''Error executing statement: SELEC 1'' @ nl
                                  @ ''Error: syntax error'']"
      by (simp add: stmts)
    from n2 have l2: "llm_state w2 = [''SELECT 1'']"
      unfolding u1 w1
      by (auto simp: execute_node_def stmts db_run_def plain_chain_def stub_env_def stub_db_def
            enter_def)
    from u2 have "u1 ''error'' \<noteq> None \<or> u2 ''error'' \<noteq> None" by simp
    from failed [THEN mp, OF this] obtain e x a where
      e: "(?s ++ u1 ++ u2) ''error'' = Some e"
      and a: "a = fst (llm_invoke stub_env (llm_state w2)
                         (ERROR_HANDLING_PROMPT e (fst (schema_of stub_env w2 (?s ++ u1 ++ u2)))
                            ''how many'' x))"
      and final: "s' ''error'' = Some (''Final error: '' @
                   (if strip a = [] then ''Failed to generate corrected query'' else e))"
      by (elim exE conjE)
    from e have "e = ''Error executing statement: SELEC 1'' @ nl @ ''Error: syntax error''"
      by (simp add: u1 u2 initial_state_def)
    moreover from a have "a = ''SELECT 1''"
      by (simp add: l2 stub_env_def scripted_llm_def)
    ultimately have "s' ''error'' = Some (''Final error: Error executing statement: SELEC 1''
                                            @ nl @ ''Error: syntax error'')"
      using final by (simp add: strip_def isspace_def whitespace_def)
    with run show ?thesis by (simp add: field_of_def)
  qed
  have repair_exhausted:
    "field_of ''error'' (agent_invoke stub_env (fresh []) ?s)
       = Some ''Final error: Failed to generate corrected query''"
  proof -
    let ?w = "fresh []"
    from claim [of ?w] obtain u1 w1 u2 w2 s' w' where
      n1: "query_node stub_env (enter generate_sql ?w) ?s = (Inr u1, w1)"
      and n2: "execute_node stub_env (enter run_query w1) (?s ++ u1) = (Inr u2, w2)"
      and run: "agent_invoke stub_env ?w ?s = Some (Inr s', w')"
      and failed: "u1 ''error'' \<noteq> None \<or> u2 ''error'' \<noteq> None \<longrightarrow>
         visited w' = visited ?w @ [generate_sql, run_query, handle_error, final_error]
         \<and> (\<exists>u3 w3 e x a.
               error_handling_node stub_env (enter handle_error w2) (?s ++ u1 ++ u2) = (Inr u3, w3)
             \<and> (?s ++ u1 ++ u2) ''error'' = Some e \<and> e \<noteq> []
             \<and> (?s ++ u1 ++ u2) ''sql'' = Some x
             \<and> a = fst (llm_invoke stub_env (llm_state w2)
                         (ERROR_HANDLING_PROMPT e (fst (schema_of stub_env w2 (?s ++ u1 ++ u2)))
                            ''how many'' x))
             \<and> u3 = (if strip a = [] then [''error'' \<mapsto> ''Failed to generate corrected query'']
                     else [''sql'' \<mapsto> strip a])
             \<and> s' ''error'' = Some (''Final error: '' @
                   (if strip a = [] then ''Failed to generate corrected query'' else e)))"
      by (elim exE conjE)
    from n1 have u1: "u1 = [''error'' \<mapsto> ''No SQL query generated'']"
      and w1: "w1 = \<lparr>llm_state = [], db_state = 0,
                     prompts = [QUERY_PROMPT ''t(a)'' ''how many''], executed = [],
                     schema_fetches = 1, visited = [generate_sql]\<rparr>"
      by (auto simp: query_node_def schema_of_def get_schema_def llm_call_def stub_env_def
            scripted_llm_def fresh_def enter_def initial_state_def strip_def)
    from n2 have l2: "llm_state w2 = []"
      unfolding u1 w1
      by (auto simp: execute_node_def statements_of_def enter_def initial_state_def strip_def)
    from u1 have "u1 ''error'' \<noteq> None \<or> u2 ''error'' \<noteq> None" by simp
    from failed [THEN mp, OF this] obtain e x a where
      e: "(?s ++ u1 ++ u2) ''error'' = Some e"
      and a: "a = fst (llm_invoke stub_env (llm_state w2)
                         (ERROR_HANDLING_PROMPT e (fst (schema_of stub_env w2 (?s ++ u1 ++ u2)))
                            ''how many'' x))"
      and final: "s' ''error'' = Some (''Final error: '' @
                   (if strip a = [] then ''Failed to generate corrected query'' else e))"
      by (elim exE conjE)
    from a have "a = []"
      by (simp add: l2 stub_env_def scripted_llm_def)
    with final have "s' ''error'' = Some ''Final error: Failed to generate corrected query''"
      by (simp add: strip_def)
    with run show ?thesis by (simp add: field_of_def)
  qed
  from empty_generation execution_failure repair_exhausted show ?thesis
    by (intro conjI)
qed

subsection \<open>Dispatch on the presence of the key\<close>

text \<open>
  C10. Both conditional edges look at the presence of the key \<^verbatim>\<open>error\<close> only. On a state
  that has the key, whatever its value, the node after \<^verbatim>\<open>run_query\<close> is
  \<^verbatim>\<open>handle_error\<close> and the node after \<^verbatim>\<open>handle_error\<close> is \<^verbatim>\<open>final_error\<close>,
  also after any update has been merged, a successful one included, since a merge removes no
  key. The state of \<^verbatim>\<open>main\<close> has the key with the empty string. A run from a state with
  the key never enters \<^verbatim>\<open>explain_query\<close>, and with the keys \<^verbatim>\<open>query\<close> and
  \<^verbatim>\<open>sql\<close> present it enters exactly \<^verbatim>\<open>generate_sql\<close>, \<^verbatim>\<open>run_query\<close>,
  \<^verbatim>\<open>handle_error\<close>, \<^verbatim>\<open>final_error\<close>.
\<close>

theorem dispatch_on_key_presence:
  assumes "state ''error'' = Some v"
  shows "next_node run_query state = Some handle_error
       \<and> next_node handle_error state = Some final_error
       \<and> next_node run_query (state ++ update) = Some handle_error
       \<and> next_node handle_error (state ++ update) = Some final_error
       \<and> initial_state q sch ''error'' = Some []
       \<and> (\<exists>r w' path. agent_invoke E w state = Some (r, w') \<and> visited w' = visited w @ path
             \<and> path \<in> {[generate_sql], [generate_sql, run_query, handle_error],
                         [generate_sql, run_query, handle_error, final_error]}
             \<and> (state ''query'' \<noteq> None \<and> state ''sql'' \<noteq> None \<longrightarrow>
                   path = [generate_sql, run_query, handle_error, final_error]))"
proof -
  from assms have present: "error_in state" by (simp add: error_in_def)
  then have merged: "error_in (state ++ update)" by (rule error_in_merge)
  have "\<exists>r w' path. agent_invoke E w state = Some (r, w') \<and> visited w' = visited w @ path
             \<and> path \<in> {[generate_sql], [generate_sql, run_query, handle_error],
                         [generate_sql, run_query, handle_error, final_error]}
             \<and> (state ''query'' \<noteq> None \<and> state ''sql'' \<noteq> None \<longrightarrow>
                   path = [generate_sql, run_query, handle_error, final_error])"
  proof (cases rule: agent_invoke_cases [of E w state])
    case (generate_raises e w1)
    then show ?thesis
      using query_node_world(1) [OF generate_raises(1)] query_node_raises [OF generate_raises(1)]
      by (intro exI [of _ "Inl e"] exI [of _ w1] exI [of _ "[generate_sql]"]) (simp add: enter_def)
  next
    case (explained u1 w1 u2 w2 u3 w3)
    from present have "error_in (state ++ u1 ++ u2)" by (intro error_in_merge)
    with explained(3) show ?thesis by simp
  next
    case (repair_raises u1 w1 u2 w2 e w3)
    from error_handling_node_raises [OF repair_raises(4)] repair_raises(3)
    have "state ''query'' = None \<or> state ''sql'' = None"
      by (auto simp: error_in_def dest: merge_keeps)
    with repair_raises show ?thesis
      using path_abandoned(2) [OF repair_raises(1,2,4)]
      by (intro exI [of _ "Inl e"] exI [of _ w3]
           exI [of _ "[generate_sql, run_query, handle_error]"]) auto
  next
    case (abandoned u1 w1 u2 w2 u3 w3)
    then show ?thesis
      using path_abandoned(1) [OF abandoned(1,2,4)]
      by (intro exI [of _ "Inr (gave_up (state ++ u1 ++ u2 ++ u3))"]
            exI [of _ "enter final_error w3"]
            exI [of _ "[generate_sql, run_query, handle_error, final_error]"]) simp
  qed
  with present merged show ?thesis
    by (simp add: initial_state_keys)
qed

theorem dispatch_on_key_presence_witness:
  "initial_state ''how many'' ''t(a)'' ''error'' = Some []
   \<and> next_node run_query (initial_state ''how many'' ''t(a)'' ++ [''result'' \<mapsto> ''1''])
       = Some handle_error
   \<and> next_node handle_error (initial_state ''how many'' ''t(a)'' ++ [''sql'' \<mapsto> ''SELECT 2''])
       = Some final_error
   \<and> (\<exists>r w'. agent_invoke stub_env (fresh [''SELECT 1'', ''SELECT 2''])
                 (initial_state ''how many'' ''t(a)'') = Some (r, w')
         \<and> visited w' = [generate_sql, run_query, handle_error, final_error])"
proof -
  have e: "initial_state ''how many'' ''t(a)'' ''error'' = Some []"
    by (simp add: initial_state_keys)
  from dispatch_on_key_presence [where state = "initial_state ''how many'' ''t(a)''"
        and v = "[]" and update = "[''result'' \<mapsto> ''1'']" and E = stub_env
        and w = "fresh [''SELECT 1'', ''SELECT 2'']", OF e]
    dispatch_on_key_presence [where state = "initial_state ''how many'' ''t(a)''"
        and v = "[]" and update = "[''sql'' \<mapsto> ''SELECT 2'']" and E = stub_env
        and w = "fresh [''SELECT 1'', ''SELECT 2'']", OF e]
  show ?thesis
    by (auto simp: initial_state_keys fresh_def)
qed

subsection \<open>A first execution that succeeds\<close>

text \<open>
  C1. Every run from the state of \<^verbatim>\<open>main\<close> ends in \<^verbatim>\<open>final_error\<close>, with the
  \<^verbatim>\<open>error\<close> field set and the \<^verbatim>\<open>explanation\<close> field still empty. On the stand-ins
  with the model answering \<^verbatim>\<open>SELECT 1\<close>, the statement runs and gives the result
  \<^verbatim>\<open>1\<close>, and the state returned has the error \<^verbatim>\<open>Final error: \<close> and no explanation:
  \<^verbatim>\<open>explain_query\<close> is not entered.
\<close>

theorem first_success_ends_in_final_error:
  "(\<exists>s' w' e. agent_invoke E w (initial_state q sch) = Some (Inr s', w')
       \<and> visited w' = visited w @ [generate_sql, run_query, handle_error, final_error]
       \<and> s' ''explanation'' = Some [] \<and> s' ''error'' = Some (''Final error: '' @ e))
   \<and> (\<exists>s w. ask stub_env (fresh [''SELECT 1'', ''SELECT 2'']) ''how many'' = Some (Inr s, w)
       \<and> executed w = [''SELECT 1''] \<and> s ''result'' = Some ''1''
       \<and> s ''error'' = Some ''Final error: '' \<and> s ''explanation'' = Some []
       \<and> visited w = [generate_sql, run_query, handle_error, final_error])"
proof
  have q: "initial_state q sch ''query'' \<noteq> None" and s: "initial_state q sch ''sql'' \<noteq> None"
    by (simp_all add: initial_state_keys)
  then show "\<exists>s' w' e. agent_invoke E w (initial_state q sch) = Some (Inr s', w')
       \<and> visited w' = visited w @ [generate_sql, run_query, handle_error, final_error]
       \<and> s' ''explanation'' = Some [] \<and> s' ''error'' = Some (''Final error: '' @ e)"
  proof (cases rule: agent_invoke_keys_cases [where E = E and w = w])
    case (explained u1 w1 u2 w2 u3 w3)
    have "error_in (initial_state q sch ++ u1 ++ u2)"
      by (intro error_in_merge) (simp add: error_in_def initial_state_keys)
    with explained(3) show ?thesis by simp
  next
    case (abandoned u1 w1 u2 w2 u3 w3)
    have "gave_up (initial_state q sch ++ u1 ++ u2 ++ u3) ''explanation'' = Some []"
      using abandoned_frame [OF abandoned(1,2,4), of "''explanation''" "initial_state q sch"]
      by (simp add: initial_state_keys)
    with abandoned show ?thesis
      using path_abandoned(1) [OF abandoned(1,2,4)]
        gave_up_error [of "initial_state q sch ++ u1 ++ u2 ++ u3"]
      by (intro exI [of _ "gave_up (initial_state q sch ++ u1 ++ u2 ++ u3)"]
            exI [of _ "enter final_error w3"]) simp
  qed
next
  show "\<exists>s w. ask stub_env (fresh [''SELECT 1'', ''SELECT 2'']) ''how many'' = Some (Inr s, w)
       \<and> executed w = [''SELECT 1''] \<and> s ''result'' = Some ''1''
       \<and> s ''error'' = Some ''Final error: '' \<and> s ''explanation'' = Some []
       \<and> visited w = [generate_sql, run_query, handle_error, final_error]"
    by (simp add: ask_stub run_first_success gave_up_def initial_state_keys)
qed

subsection \<open>A repaired query\<close>

text \<open>
  C3. On the stand-ins the model first answers \<^verbatim>\<open>SELEC 1\<close>, which the database rejects,
  and then repairs it to \<^verbatim>\<open>SELECT 1\<close>, which the database would accept. The state
  returned has the repaired text in \<^verbatim>\<open>sql\<close>, but the repaired statement is never run:
  the only statement executed is the rejected one, and the error of the first execution is
  returned after \<^verbatim>\<open>Final error: \<close>.
\<close>

theorem repaired_query_is_never_run:
  "\<exists>s w. ask stub_env (fresh [''SELEC 1'', ''SELECT 1'']) ''how many'' = Some (Inr s, w)
     \<and> s ''sql'' = Some ''SELECT 1'' \<and> fst (stub_db 0 ''SELECT 1'') = Inr ''1''
     \<and> executed w = [''SELEC 1''] \<and> s ''result'' = Some []
     \<and> s ''error'' = Some (''Final error: Error executing statement: SELEC 1'' @ nl
                             @ ''Error: syntax error'')
     \<and> visited w = [generate_sql, run_query, handle_error, final_error]"
  by (simp add: ask_stub run_repaired gave_up_def initial_state_keys stub_db_def)

subsection \<open>Blank text at the generation step\<close>

text \<open>
  C4, as stated, fails: on the stand-ins with a model that answers blank text, the run of
  \<^verbatim>\<open>main\<close> enters \<^verbatim>\<open>run_query\<close>, and the error returned is the one of the repair
  step.
\<close>

theorem blank_generation_still_executes:
  "strip (fst (llm_invoke stub_env [] (QUERY_PROMPT ''t(a)'' ''how many''))) = []
   \<and> run_query \<in> set (nodes_of (ask stub_env (fresh []) ''how many''))
   \<and> field_of ''error'' (ask stub_env (fresh []) ''how many'')
       = Some ''Final error: Failed to generate corrected query''"
proof -
  have "strip (fst (llm_invoke stub_env [] (QUERY_PROMPT ''t(a)'' ''how many''))) = []"
    by (simp add: stub_env_def scripted_llm_def strip_def)
  then show ?thesis
    by (simp add: ask_stub run_blank nodes_of_def field_of_def gave_up_def)
qed

text \<open>
  C4, amended. When the model answers the generation prompt with blank text, the generation
  step reports \<^verbatim>\<open>No SQL query generated\<close>. The edge to \<^verbatim>\<open>run_query\<close> has no
  condition, so the execution step is entered all the same, but on the empty \<^verbatim>\<open>sql\<close> that
  \<^verbatim>\<open>main\<close> sets it hands no statement to the database, and the repair step is
  entered next. The run returns a state, and no statement is run against the database in the
  whole run, which leaves it as it was. When the model answers the repair prompt with blank
  text too, the run ends in \<^verbatim>\<open>final_error\<close> and returns the error of the repair step
  after \<^verbatim>\<open>Final error: \<close>.
\<close>

theorem blank_generation:
  assumes "strip (fst (llm_invoke E (llm_state w) (QUERY_PROMPT sch q))) = []"
  shows "fst (query_node E (enter generate_sql w) (initial_state q sch))
           = Inr [''error'' \<mapsto> ''No SQL query generated'']
       \<and> (\<exists>s' w' rest. agent_invoke E w (initial_state q sch) = Some (Inr s', w')
             \<and> visited w' = visited w @ [generate_sql, run_query, handle_error] @ rest
             \<and> executed w' = executed w \<and> db_state w' = db_state w
             \<and> (strip (fst (llm_invoke E (snd (llm_invoke E (llm_state w) (QUERY_PROMPT sch q)))
                          (ERROR_HANDLING_PROMPT ''No SQL query generated'' sch q []))) = []
                 \<longrightarrow> rest = [final_error]
                      \<and> s' ''error'' = Some ''Final error: Failed to generate corrected query''))"
proof
  have blank: "fst (query_node E (enter generate_sql w) (initial_state q sch))
           = Inr [''error'' \<mapsto> ''No SQL query generated'']"
    using assms by (intro query_node_blank) (simp_all add: initial_state_keys enter_def)
  then show "fst (query_node E (enter generate_sql w) (initial_state q sch))
           = Inr [''error'' \<mapsto> ''No SQL query generated'']" .
  have q: "initial_state q sch ''query'' \<noteq> None" and s: "initial_state q sch ''sql'' \<noteq> None"
    by (simp_all add: initial_state_keys)
  then show "\<exists>s' w' rest. agent_invoke E w (initial_state q sch) = Some (Inr s', w')
             \<and> visited w' = visited w @ [generate_sql, run_query, handle_error] @ rest
             \<and> executed w' = executed w \<and> db_state w' = db_state w
             \<and> (strip (fst (llm_invoke E (snd (llm_invoke E (llm_state w) (QUERY_PROMPT sch q)))
                          (ERROR_HANDLING_PROMPT ''No SQL query generated'' sch q []))) = []
                 \<longrightarrow> rest = [final_error]
                      \<and> s' ''error'' = Some ''Final error: Failed to generate corrected query'')"
  proof (cases rule: agent_invoke_keys_cases [where E = E and w = w])
    case (explained u1 w1 u2 w2 u3 w3)
    have "error_in (initial_state q sch ++ u1 ++ u2)"
      by (intro error_in_merge) (simp add: error_in_def initial_state_keys)
    with explained(3) show ?thesis by simp
  next
    case (abandoned u1 w1 u2 w2 u3 w3)
    from blank abandoned(1) have u1: "u1 = [''error'' \<mapsto> ''No SQL query generated'']" by simp
    then have "(initial_state q sch ++ u1) ''sql'' = Some []"
      by (simp add: initial_state_keys map_add_def)
    from execute_node_blank [where state = "initial_state q sch ++ u1" and E = E
        and w = "enter run_query w1", OF this] abandoned(2)
    have u2: "u2 = [''result'' \<mapsto> []]" and w2: "w2 = enter run_query w1" by simp_all
    have log: "executed (enter final_error w3) = executed w"
      "db_state (enter final_error w3) = db_state w"
      using query_node_world(2,3) [OF abandoned(1)] error_handling_node_world(2,3) [OF abandoned(4)] w2
      by (simp_all add: enter_def)
    have model: "llm_state (enter handle_error w2)
                   = snd (llm_invoke E (llm_state w) (QUERY_PROMPT sch q))"
      using query_node_llm_state [OF abandoned(1), of q sch] w2
      by (simp add: initial_state_keys enter_fields)
    have keys: "(initial_state q sch ++ u1 ++ u2) ''error'' = Some ''No SQL query generated''"
      "(initial_state q sch ++ u1 ++ u2) ''query'' = Some q"
      "(initial_state q sch ++ u1 ++ u2) ''sql'' = Some []"
      "(initial_state q sch ++ u1 ++ u2) ''schema'' = Some sch"
      using u1 u2 by (simp_all add: initial_state_keys map_add_def)
    have "strip (fst (llm_invoke E (snd (llm_invoke E (llm_state w) (QUERY_PROMPT sch q)))
                          (ERROR_HANDLING_PROMPT ''No SQL query generated'' sch q []))) = []
          \<longrightarrow> gave_up (initial_state q sch ++ u1 ++ u2 ++ u3) ''error''
                = Some ''Final error: Failed to generate corrected query''"
    proof
      assume "strip (fst (llm_invoke E (snd (llm_invoke E (llm_state w) (QUERY_PROMPT sch q)))
                          (ERROR_HANDLING_PROMPT ''No SQL query generated'' sch q []))) = []"
      with model have "strip (fst (llm_invoke E (llm_state (enter handle_error w2))
                          (ERROR_HANDLING_PROMPT ''No SQL query generated'' sch q []))) = []"
        by simp
      from error_handling_node_blank [OF keys(1,2,3,4) this] abandoned(4)
      have "u3 = [''error'' \<mapsto> ''Failed to generate corrected query'']" by simp
      then show "gave_up (initial_state q sch ++ u1 ++ u2 ++ u3) ''error''
                = Some ''Final error: Failed to generate corrected query''"
        by (simp add: gave_up_def)
    qed
    with abandoned(5) log path_abandoned(1) [OF abandoned(1,2,4)] show ?thesis
      by (intro exI [of _ "gave_up (initial_state q sch ++ u1 ++ u2 ++ u3)"]
            exI [of _ "enter final_error w3"] exI [of _ "[final_error]"]) simp
  qed
qed

theorem blank_generation_witness:
  "strip (fst (llm_invoke stub_env (llm_state (fresh [])) (QUERY_PROMPT ''t(a)'' ''how many''))) = []
   \<and> (\<exists>s' w'. agent_invoke stub_env (fresh []) (initial_state ''how many'' ''t(a)'')
                  = Some (Inr s', w')
         \<and> visited w' = [generate_sql, run_query, handle_error, final_error]
         \<and> executed w' = []
         \<and> s' ''error'' = Some ''Final error: Failed to generate corrected query'')"
proof -
  have b: "strip (fst (llm_invoke stub_env (llm_state (fresh []))
                 (QUERY_PROMPT ''t(a)'' ''how many''))) = []"
    by (simp add: stub_env_def scripted_llm_def fresh_def strip_def)
  have r: "strip (fst (llm_invoke stub_env
                    (snd (llm_invoke stub_env (llm_state (fresh [])) (QUERY_PROMPT ''t(a)'' ''how many'')))
                    (ERROR_HANDLING_PROMPT ''No SQL query generated'' ''t(a)'' ''how many'' []))) = []"
    by (simp add: stub_env_def scripted_llm_def fresh_def strip_def)
  from blank_generation [OF b] b r show ?thesis
    by (auto simp: fresh_def)
qed

subsection \<open>The question and the schema\<close>

text \<open>
  C8, as stated, fails on the number of fetches: for one question on the stand-ins the schema
  is introspected three times, once by \<^verbatim>\<open>main\<close> and once more by the generation step and
  by the repair step, whose \<^verbatim>\<open>state.get('schema', get_schema())\<close> evaluates its default
  although the key is there.
\<close>

theorem schema_is_fetched_three_times:
  "fetches_of (ask stub_env (fresh [''SELECT 1'', ''SELECT 2'']) ''how many'') = 3"
  by (simp add: ask_stub run_first_success fetches_of_def)

text \<open>
  C8, amended. No node writes the key \<^verbatim>\<open>query\<close> or the key \<^verbatim>\<open>schema\<close>. A run on a
  state that has both ends, and the state it returns has the same question and the same
  schema text. The prompts sent to the model during the run are, in this order: the generation
  prompt, on the schema text and the question of the initial state; whatever the database
  chain sends on its own while the execution step runs, which no step builds and which is
  not covered (the chain introspects the schema itself); and the prompts the later steps
  build, each the repair prompt on the schema text and the question of the initial state, or
  the explanation prompt, which takes neither.
\<close>

theorem query_and_schema_are_never_written:
  assumes "state ''query'' = Some q" and "state ''schema'' = Some sch"
  shows "(\<forall>n u w'. node_action n E w state = (Inr u, w') \<longrightarrow>
            u ''query'' = None \<and> u ''schema'' = None)
       \<and> (\<exists>r w' u1 w1 r2 w2 sent rest.
             agent_invoke E w state = Some (r, w')
           \<and> (\<forall>s'. r = Inr s' \<longrightarrow> s' ''query'' = Some q \<and> s' ''schema'' = Some sch)
           \<and> query_node E (enter generate_sql w) state = (Inr u1, w1)
           \<and> execute_node E (enter run_query w1) (state ++ u1) = (r2, w2)
           \<and> prompts w2 = prompts w1 @ sent
           \<and> prompts w' = prompts w @ [QUERY_PROMPT sch q] @ sent @ rest
           \<and> (\<forall>p \<in> set rest. (\<exists>e x. p = ERROR_HANDLING_PROMPT e sch q x)
                                \<or> (\<exists>x. p = EXPLANATION_PROMPT x)))"
proof (rule conjI)
  show "\<forall>n u w'. node_action n E w state = (Inr u, w') \<longrightarrow>
            u ''query'' = None \<and> u ''schema'' = None"
    by (intro allI impI) (rule node_action_frame)
next
  show "\<exists>r w' u1 w1 r2 w2 sent rest.
             agent_invoke E w state = Some (r, w')
           \<and> (\<forall>s'. r = Inr s' \<longrightarrow> s' ''query'' = Some q \<and> s' ''schema'' = Some sch)
           \<and> query_node E (enter generate_sql w) state = (Inr u1, w1)
           \<and> execute_node E (enter run_query w1) (state ++ u1) = (r2, w2)
           \<and> prompts w2 = prompts w1 @ sent
           \<and> prompts w' = prompts w @ [QUERY_PROMPT sch q] @ sent @ rest
           \<and> (\<forall>p \<in> set rest. (\<exists>e x. p = ERROR_HANDLING_PROMPT e sch q x)
                                \<or> (\<exists>x. p = EXPLANATION_PROMPT x))"
    by (rule run_prompts [OF assms])
qed

theorem query_and_schema_are_never_written_witness:
  "initial_state ''how many'' ''t(a)'' ''query'' = Some ''how many''
   \<and> initial_state ''how many'' ''t(a)'' ''schema'' = Some ''t(a)''
   \<and> (\<exists>s' w'. agent_invoke wired_env
                  \<lparr>llm_state = 0, db_state = 0, prompts = [], executed = [],
                   schema_fetches = 0, visited = []\<rparr>
                  (initial_state ''how many'' ''t(a)'') = Some (Inr s', w')
          \<and> s' ''query'' = Some ''how many'' \<and> s' ''schema'' = Some ''t(a)''
          \<and> prompts w' =
               [QUERY_PROMPT ''t(a)'' ''how many'',
                ''Schema: t(a)'' @ nl @ ''Question: SELECT 1'',
                ''Result: 1'',
                ERROR_HANDLING_PROMPT [] ''t(a)'' ''how many'' ''SELECT 1''])"
proof -
  let ?w = "\<lparr>llm_state = 0::nat, db_state = 0::nat, prompts = [], executed = [],
             schema_fetches = 0, visited = []\<rparr>"
  have q: "initial_state ''how many'' ''t(a)'' ''query'' = Some ''how many''"
    and s: "initial_state ''how many'' ''t(a)'' ''schema'' = Some ''t(a)''"
    by (simp_all add: initial_state_keys)
  from query_and_schema_are_never_written [where state = "initial_state ''how many'' ''t(a)''"
      and q = "''how many''" and sch = "''t(a)''" and E = wired_env and w = ?w, OF q s]
  obtain r w' where run: "agent_invoke wired_env ?w (initial_state ''how many'' ''t(a)'') = Some (r, w')"
    and frame: "\<forall>s'. r = Inr s' \<longrightarrow> s' ''query'' = Some ''how many'' \<and> s' ''schema'' = Some ''t(a)''"
    by (elim conjE exE)
  define final where "final = gave_up (initial_state ''how many'' ''t(a)'' ++ [''sql'' \<mapsto> ''SELECT 1'']
                ++ [''result'' \<mapsto> ''SELECT 1''] ++ [''sql'' \<mapsto> ''SELECT 1''])"
  from run run_wired [of 0 0 "[]" "[]" 0 "[]" "''how many''" "''t(a)''"]
  have r: "r = Inr final"
    and log: "prompts w' = [QUERY_PROMPT ''t(a)'' ''how many'',
                ''Schema: t(a)'' @ nl @ ''Question: SELECT 1'',
                ''Result: 1'',
                ERROR_HANDLING_PROMPT [] ''t(a)'' ''how many'' ''SELECT 1'']"
    by (auto simp: final_def)
  from frame have "r = Inr final \<longrightarrow> final ''query'' = Some ''how many'' \<and> final ''schema'' = Some ''t(a)''"
    by (rule spec)
  with r have kept: "final ''query'' = Some ''how many'' \<and> final ''schema'' = Some ''t(a)''"
    by (rule mp [rotated])
  from run r log kept q s show ?thesis
    by (intro conjI exI [of _ final] exI [of _ w']) simp_all
qed

subsection \<open>The state around an execution attempt\<close>

text \<open>
  C6, as stated, fails twice on the stand-ins. With a model that answers blank text, the
  generation step reports its error and writes no query, the next node is \<^verbatim>\<open>run_query\<close>
  all the same, and it runs on the empty \<^verbatim>\<open>sql\<close> of the state of \<^verbatim>\<open>main\<close>. With a
  model that answers a lone semicolon, the execution attempt has no statement to run and
  succeeds with an empty result: in the state after it both keys \<^verbatim>\<open>result\<close> and
  \<^verbatim>\<open>error\<close> are present and both hold the empty string, so neither by presence nor by
  content exactly one of them is set.
\<close>

theorem execute_runs_on_empty_sql:
  "fst (query_node stub_env (enter generate_sql (fresh [])) (initial_state ''how many'' ''t(a)''))
     = Inr [''error'' \<mapsto> ''No SQL query generated'']
   \<and> next_node generate_sql (initial_state ''how many'' ''t(a)''
                               ++ [''error'' \<mapsto> ''No SQL query generated'']) = Some run_query
   \<and> (initial_state ''how many'' ''t(a)'' ++ [''error'' \<mapsto> ''No SQL query generated'']) ''sql''
       = Some []
   \<and> run_query \<in> set (nodes_of (agent_invoke stub_env (fresh []) (initial_state ''how many'' ''t(a)'')))
   \<and> fst (query_node stub_env (enter generate_sql (fresh ['';''])) (initial_state ''how many'' ''t(a)''))
       = Inr [''sql'' \<mapsto> '';'']
   \<and> fst (execute_node stub_env (fresh []) (initial_state ''how many'' ''t(a)'' ++ [''sql'' \<mapsto> '';'']))
       = Inr [''result'' \<mapsto> []]
   \<and> (initial_state ''how many'' ''t(a)'' ++ [''sql'' \<mapsto> '';''] ++ [''result'' \<mapsto> []]) ''result''
       = Some []
   \<and> (initial_state ''how many'' ''t(a)'' ++ [''sql'' \<mapsto> '';''] ++ [''result'' \<mapsto> []]) ''error''
       = Some []"
proof -
  have "fst (query_node stub_env (enter generate_sql (fresh [])) (initial_state ''how many'' ''t(a)''))
     = Inr [''error'' \<mapsto> ''No SQL query generated'']"
    by (simp add: query_node_def schema_of_def get_schema_def llm_call_def stub_env_def
          scripted_llm_def fresh_def enter_def initial_state_def strip_def)
  moreover have "run_query \<in> set (nodes_of (agent_invoke stub_env (fresh [])
                    (initial_state ''how many'' ''t(a)'')))"
    by (simp add: fresh_def run_blank nodes_of_def)
  moreover have "fst (query_node stub_env (enter generate_sql (fresh ['';'']))
                    (initial_state ''how many'' ''t(a)'')) = Inr [''sql'' \<mapsto> '';'']"
    by (simp add: query_node_def schema_of_def get_schema_def llm_call_def stub_env_def
          scripted_llm_def fresh_def enter_def initial_state_def strip_def isspace_def
          whitespace_def)
  moreover have "fst (execute_node stub_env (fresh [])
                    (initial_state ''how many'' ''t(a)'' ++ [''sql'' \<mapsto> '';'']))
                  = Inr [''result'' \<mapsto> []]"
    by (simp add: execute_node_def statements_of_def strip_def)
  ultimately show ?thesis
    by (simp add: initial_state_def)
qed

text \<open>
  C6, amended. An execution attempt never raises and writes exactly one of the keys
  \<^verbatim>\<open>result\<close> and \<^verbatim>\<open>error\<close>. When the generation step reports no error it has written
  a query, so \<^verbatim>\<open>sql\<close> is not empty when the execution step runs next. Every run ends,
  and in the state returned by a run that entered \<^verbatim>\<open>handle_error\<close> the error is
  cleared, or the retry was abandoned: the run ended in \<^verbatim>\<open>final_error\<close> with the
  \<^verbatim>\<open>error\<close> field set.
\<close>

theorem execution_attempt_invariants:
  "(\<exists>u w'. execute_node E w state = (Inr u, w')
       \<and> (dom u = {''result''} \<or> dom u = {''error''}))
   \<and> (\<forall>u w'. query_node E w state = (Inr u, w') \<and> u ''error'' = None \<longrightarrow>
         (\<exists>sql. sql \<noteq> [] \<and> (state ++ u) ''sql'' = Some sql))
   \<and> (\<exists>r w' path. agent_invoke E w state = Some (r, w') \<and> visited w' = visited w @ path
         \<and> (\<forall>s'. handle_error \<in> set path \<and> r = Inr s' \<longrightarrow>
               s' ''error'' = None
               \<or> last path = final_error \<and> (\<exists>e. s' ''error'' = Some (''Final error: '' @ e))))"
proof (intro conjI)
  show "\<exists>u w'. execute_node E w state = (Inr u, w')
       \<and> (dom u = {''result''} \<or> dom u = {''error''})"
    by (rule execute_node_writes_one)
next
  show "\<forall>u w'. query_node E w state = (Inr u, w') \<and> u ''error'' = None \<longrightarrow>
         (\<exists>sql. sql \<noteq> [] \<and> (state ++ u) ''sql'' = Some sql)"
  proof (intro allI impI)
    fix u w'
    assume "query_node E w state = (Inr u, w') \<and> u ''error'' = None"
    then show "\<exists>sql. sql \<noteq> [] \<and> (state ++ u) ''sql'' = Some sql"
      using query_node_sql [of E w state u w'] by simp
  qed
next
  from run_once [of E w state] obtain r w' path where
    run: "agent_invoke E w state = Some (r, w')" "visited w' = visited w @ path"
    and ends: "handle_error \<in> set path \<longrightarrow>
            (\<forall>s'. r = Inr s' \<longrightarrow> last path = final_error
                       \<and> (\<exists>e. s' ''error'' = Some (''Final error: '' @ e)))"
    by (elim exE conjE)
  have "\<forall>s'. handle_error \<in> set path \<and> r = Inr s' \<longrightarrow>
               s' ''error'' = None
               \<or> last path = final_error \<and> (\<exists>e. s' ''error'' = Some (''Final error: '' @ e))"
  proof (intro allI impI)
    fix s'
    assume "handle_error \<in> set path \<and> r = Inr s'"
    then have entered: "handle_error \<in> set path" and returned: "r = Inr s'" by simp_all
    from ends entered
    have "\<forall>s'. r = Inr s' \<longrightarrow> last path = final_error
                       \<and> (\<exists>e. s' ''error'' = Some (''Final error: '' @ e))"
      by (rule mp)
    then have "r = Inr s' \<longrightarrow> last path = final_error
                       \<and> (\<exists>e. s' ''error'' = Some (''Final error: '' @ e))"
      by (rule spec)
    from this returned
    have "last path = final_error \<and> (\<exists>e. s' ''error'' = Some (''Final error: '' @ e))"
      by (rule mp)
    then show "s' ''error'' = None
               \<or> last path = final_error \<and> (\<exists>e. s' ''error'' = Some (''Final error: '' @ e))"
      by (rule disjI2)
  qed
  with run show "\<exists>r w' path. agent_invoke E w state = Some (r, w') \<and> visited w' = visited w @ path
         \<and> (\<forall>s'. handle_error \<in> set path \<and> r = Inr s' \<longrightarrow>
               s' ''error'' = None
               \<or> last path = final_error \<and> (\<exists>e. s' ''error'' = Some (''Final error: '' @ e)))"
    by (intro exI [of _ r] exI [of _ w'] exI [of _ path] conjI)
qed

theorem execution_attempt_invariants_witness:
  "(\<exists>u w'. query_node stub_env (fresh [''SELEC 1'', ''SELECT 1'']) (initial_state ''how many'' ''t(a)'')
              = (Inr u, w')
        \<and> u ''error'' = None
        \<and> (initial_state ''how many'' ''t(a)'' ++ u) ''sql'' = Some ''SELEC 1'')
   \<and> (\<exists>s' w'. agent_invoke stub_env (fresh [''SELEC 1'', ''SELECT 1''])
                 (initial_state ''how many'' ''t(a)'') = Some (Inr s', w')
        \<and> handle_error \<in> set (visited w') \<and> last (visited w') = final_error
        \<and> (\<exists>e. s' ''error'' = Some (''Final error: '' @ e)))"
proof (rule conjI)
  have gen: "query_node stub_env (fresh [''SELEC 1'', ''SELECT 1'']) (initial_state ''how many'' ''t(a)'')
      = (Inr [''sql'' \<mapsto> ''SELEC 1''],
         \<lparr>llm_state = [''SELECT 1''], db_state = 0,
          prompts = [QUERY_PROMPT ''t(a)'' ''how many''], executed = [],
          schema_fetches = Suc 0, visited = []\<rparr>)"
    by (simp add: query_node_def schema_of_def get_schema_def llm_call_def stub_env_def
          scripted_llm_def fresh_def initial_state_def strip_def isspace_def whitespace_def)
  then show "\<exists>u w'. query_node stub_env (fresh [''SELEC 1'', ''SELECT 1''])
                (initial_state ''how many'' ''t(a)'') = (Inr u, w')
        \<and> u ''error'' = None
        \<and> (initial_state ''how many'' ''t(a)'' ++ u) ''sql'' = Some ''SELEC 1''"
    by simp
next
  from execution_attempt_invariants [of stub_env "fresh [''SELEC 1'', ''SELECT 1'']"
      "initial_state ''how many'' ''t(a)''"]
  obtain r w' path where
    run: "agent_invoke stub_env (fresh [''SELEC 1'', ''SELECT 1''])
            (initial_state ''how many'' ''t(a)'') = Some (r, w')"
    and path: "visited w' = visited (fresh [''SELEC 1'', ''SELECT 1'']) @ path"
    and ends: "\<forall>s'. handle_error \<in> set path \<and> r = Inr s' \<longrightarrow>
               s' ''error'' = None
               \<or> last path = final_error \<and> (\<exists>e. s' ''error'' = Some (''Final error: '' @ e))"
    by (elim conjE exE)
  define final where "final = gave_up (initial_state ''how many'' ''t(a)'' ++ [''sql'' \<mapsto> ''SELEC 1'']
                ++ [''error'' \<mapsto> ''Error executing statement: SELEC 1'' @ nl @ ''Error: syntax error'']
                ++ [''sql'' \<mapsto> ''SELECT 1''])"
  from run run_repaired [of 0 "[]" "[]" 0 "[]" "''how many''" "''t(a)''"]
  have r: "r = Inr final"
    and nodes: "visited w' = [generate_sql, run_query, handle_error, final_error]"
    by (auto simp: fresh_def final_def)
  with path have p: "path = [generate_sql, run_query, handle_error, final_error]"
    by (simp add: fresh_def)
  have set: "final ''error'' \<noteq> None" by (simp add: final_def gave_up_def)
  from ends have "handle_error \<in> set path \<and> r = Inr final \<longrightarrow>
               final ''error'' = None
               \<or> last path = final_error \<and> (\<exists>e. final ''error'' = Some (''Final error: '' @ e))"
    by (rule spec)
  with p r set have "\<exists>e. final ''error'' = Some (''Final error: '' @ e)" by auto
  with run r nodes show "\<exists>s' w'. agent_invoke stub_env (fresh [''SELEC 1'', ''SELECT 1''])
                 (initial_state ''how many'' ''t(a)'') = Some (Inr s', w')
        \<and> handle_error \<in> set (visited w') \<and> last (visited w') = final_error
        \<and> (\<exists>e. s' ''error'' = Some (''Final error: '' @ e))"
    by (intro exI [of _ final] exI [of _ w']) simp
qed

subsection \<open>The execution step\<close>

text \<open>
  C5, as stated, fails on its last clause: the empty text, which is the \<^verbatim>\<open>sql\<close> of the
  state of \<^verbatim>\<open>main\<close>, has no semicolon and yields no statement at all; the execution step
  hands nothing to the database and succeeds with an empty result.
\<close>

theorem blank_sql_runs_no_statement:
  "CHR '';'' \<notin> set ([] :: string) \<and> statements_of [] = []
   \<and> initial_state ''how many'' ''t(a)'' ''sql'' = Some []
   \<and> execute_node stub_env (fresh []) (initial_state ''how many'' ''t(a)'')
       = (Inr [''result'' \<mapsto> []], fresh [])
   \<and> executed (fresh []) = []"
  by (simp add: statements_of_def strip_def execute_node_def initial_state_def fresh_def)

text \<open>
  C5, amended. Splitting on the semicolon cuts the text into the fragments between the
  semicolons (joined by semicolons they give the text back, and none contains a semicolon);
  the statements are the fragments that are not all whitespace, stripped, in order. On a state
  whose \<^verbatim>\<open>sql\<close> is the text, the execution step does not raise, and either every statement
  succeeds when handed to the chain in order, each on the database and the model left by the
  ones before it, and then the result is the outputs joined by newlines and all statements
  were handed to the chain, or there is a first statement that fails, and then the error
  carries that statement and the message, and exactly the statements up to that one were
  handed to the chain. The
  text \<^verbatim>\<open>SELECT 1; SELECT 2;\<close> has the two statements \<^verbatim>\<open>SELECT 1\<close> and
  \<^verbatim>\<open>SELECT 2\<close>; a text without semicolon has one statement when it is not blank, and none
  when it is blank.
\<close>

theorem execute_runs_statements_in_order:
  assumes "state ''sql'' = Some sql"
  shows "join '';'' (split CHR '';'' sql) = sql
       \<and> (\<forall>frag \<in> set (split CHR '';'' sql). CHR '';'' \<notin> set frag)
       \<and> statements_of sql =
           map strip (filter (\<lambda>frag. \<exists>c \<in> set frag. \<not> isspace c) (split CHR '';'' sql))
       \<and> (\<exists>u w'. execute_node E w state = (Inr u, w')
            \<and> ((\<exists>outs. length outs = length (statements_of sql)
                   \<and> (\<forall>i<length (statements_of sql).
                          outcome E w (statements_of sql) i = Inr (outs ! i))
                   \<and> u = [''result'' \<mapsto> join nl outs]
                   \<and> executed w' = executed w @ statements_of sql
                   \<and> w' = db_after E w (statements_of sql))
               \<or> (\<exists>k msg. k < length (statements_of sql)
                   \<and> (\<forall>i<k. \<exists>out. outcome E w (statements_of sql) i = Inr out)
                   \<and> outcome E w (statements_of sql) k = Inl msg
                   \<and> u = [''error'' \<mapsto> ''Error executing statement: '' @ statements_of sql ! k
                                           @ nl @ ''Error: '' @ msg]
                   \<and> executed w' = executed w @ take (Suc k) (statements_of sql)
                   \<and> w' = db_after E w (take (Suc k) (statements_of sql)))))
       \<and> statements_of ''SELECT 1; SELECT 2;'' = [''SELECT 1'', ''SELECT 2'']
       \<and> (CHR '';'' \<notin> set sql \<longrightarrow>
            statements_of sql = (if strip sql = [] then [] else [strip sql]))"
proof (intro conjI)
  show "join '';'' (split CHR '';'' sql) = sql" by (rule join_split)
  show "\<forall>frag \<in> set (split CHR '';'' sql). CHR '';'' \<notin> set frag"
    by (intro ballI) (rule split_no_sep)
  show "statements_of sql =
           map strip (filter (\<lambda>frag. \<exists>c \<in> set frag. \<not> isspace c) (split CHR '';'' sql))"
    by (rule statements_of_words)
  show "statements_of ''SELECT 1; SELECT 2;'' = [''SELECT 1'', ''SELECT 2'']"
    by (rule statements_select_1_2)
  show "CHR '';'' \<notin> set sql \<longrightarrow>
            statements_of sql = (if strip sql = [] then [] else [strip sql])"
    by (intro impI) (rule statements_of_without_semicolon)
  show "\<exists>u w'. execute_node E w state = (Inr u, w')
            \<and> ((\<exists>outs. length outs = length (statements_of sql)
                   \<and> (\<forall>i<length (statements_of sql).
                          outcome E w (statements_of sql) i = Inr (outs ! i))
                   \<and> u = [''result'' \<mapsto> join nl outs]
                   \<and> executed w' = executed w @ statements_of sql
                   \<and> w' = db_after E w (statements_of sql))
               \<or> (\<exists>k msg. k < length (statements_of sql)
                   \<and> (\<forall>i<k. \<exists>out. outcome E w (statements_of sql) i = Inr out)
                   \<and> outcome E w (statements_of sql) k = Inl msg
                   \<and> u = [''error'' \<mapsto> ''Error executing statement: '' @ statements_of sql ! k
                                           @ nl @ ''Error: '' @ msg]
                   \<and> executed w' = executed w @ take (Suc k) (statements_of sql)
                   \<and> w' = db_after E w (take (Suc k) (statements_of sql))))"
    by (rule execute_node_in_order [where state = state and sql = sql, OF assms])
qed

theorem execute_runs_statements_in_order_witness:
  "[''sql'' \<mapsto> ''SELECT 1; SELECT 2;''] ''sql'' = Some ''SELECT 1; SELECT 2;''
   \<and> split CHR '';'' ''SELECT 1; SELECT 2;'' = [''SELECT 1'', '' SELECT 2'', []]
   \<and> fst (execute_node stub_env (fresh []) [''sql'' \<mapsto> ''SELECT 1; SELECT 2;''])
       = Inr [''result'' \<mapsto> ''1'' @ nl @ ''1'']
   \<and> executed (snd (execute_node stub_env (fresh []) [''sql'' \<mapsto> ''SELECT 1; SELECT 2;'']))
       = [''SELECT 1'', ''SELECT 2'']
   \<and> CHR '';'' \<notin> set ''SELECT 1'' \<and> statements_of ''SELECT 1'' = [''SELECT 1'']"
proof -
  have s: "[''sql'' \<mapsto> ''SELECT 1; SELECT 2;''] ''sql'' = Some ''SELECT 1; SELECT 2;''"
    and t: "[''sql'' \<mapsto> ''SELECT 1''] ''sql'' = Some ''SELECT 1''"
    by simp_all
  have run: "execute_node stub_env (fresh []) [''sql'' \<mapsto> ''SELECT 1; SELECT 2;'']
      = (Inr [''result'' \<mapsto> ''1'' @ nl @ ''1''],
         \<lparr>llm_state = [], db_state = 2, prompts = [], executed = [''SELECT 1'', ''SELECT 2''],
          schema_fetches = 0, visited = []\<rparr>)"
    by (simp add: execute_node_def statements_select_1_2 db_run_def plain_chain_def stub_env_def stub_db_def
          fresh_def)
  have strip: "strip ''SELECT 1'' = ''SELECT 1''"
    by (simp add: strip_def isspace_def whitespace_def)
  from execute_runs_statements_in_order [where state = "[''sql'' \<mapsto> ''SELECT 1'']"
        and sql = "''SELECT 1''" and E = stub_env and w = "fresh []", OF t]
  have "CHR '';'' \<notin> set ''SELECT 1'' \<longrightarrow>
          statements_of ''SELECT 1'' = (if strip ''SELECT 1'' = [] then [] else [strip ''SELECT 1''])"
    by (elim conjE)
  with strip have one: "statements_of ''SELECT 1'' = [''SELECT 1'']" by simp
  from s run one show ?thesis
    by simp
qed

subsection \<open>Running a question twice\<close>

text \<open>
  C9. Let the answer of the model depend on the prompt only, whatever the state of the model
  is, and let two runs of \<^verbatim>\<open>main\<close> on the same question start on the same database; the
  model may be in different states and the logs may differ, as they do when the second run
  follows the first. Then both runs return a state, and the two states have the same
  \<^verbatim>\<open>sql\<close> and the same \<^verbatim>\<open>result\<close>.
\<close>

theorem rerun_gives_same_sql_and_result:
  assumes "\<forall>l l' p. fst (llm_invoke E l p) = fst (llm_invoke E l' p)"
    and "db_state w2 = db_state w1"
  shows "\<exists>s1 v1 s2 v2. ask E w1 q = Some (Inr s1, v1) \<and> ask E w2 q = Some (Inr s2, v2)
           \<and> s1 ''sql'' = s2 ''sql'' \<and> s1 ''result'' = s2 ''result''"
proof -
  define sch where "sch = get_table_info E (db_state w1)"
  define x1 where "x1 = w1\<lparr>schema_fetches := Suc (schema_fetches w1)\<rparr>"
  define x2 where "x2 = w2\<lparr>schema_fetches := Suc (schema_fetches w2)\<rparr>"
  from assms(2) have ask: "ask E w1 q = agent_invoke E x1 (initial_state q sch)"
    "ask E w2 q = agent_invoke E x2 (initial_state q sch)"
    by (simp_all add: ask_def get_schema_def sch_def x1_def x2_def)
  from assms(2) have "db_state x1 = db_state x2" by (simp add: x1_def x2_def)
  from agent_invoke_deterministic [OF assms(1) this, of q sch] ask show ?thesis
    by auto
qed

theorem rerun_gives_same_sql_and_result_witness:
  "(\<forall>l l' p. fst (llm_invoke steady_env l p) = fst (llm_invoke steady_env l' p))
   \<and> map_option snd (ask steady_env
         \<lparr>llm_state = 0, db_state = 0, prompts = [], executed = [], schema_fetches = 0,
          visited = []\<rparr> ''how many'')
       = Some \<lparr>llm_state = 2, db_state = 0,
               prompts = [QUERY_PROMPT ''t(a)'' ''how many'',
                          ERROR_HANDLING_PROMPT [] ''t(a)'' ''how many'' ''SELECT 1''],
               executed = [''SELECT 1''], schema_fetches = 3,
               visited = [generate_sql, run_query, handle_error, final_error]\<rparr>
   \<and> field_of ''sql'' (ask steady_env
         \<lparr>llm_state = 0, db_state = 0, prompts = [], executed = [], schema_fetches = 0,
          visited = []\<rparr> ''how many'')
       = field_of ''sql'' (ask steady_env
         \<lparr>llm_state = 2, db_state = 0,
          prompts = [QUERY_PROMPT ''t(a)'' ''how many'',
                     ERROR_HANDLING_PROMPT [] ''t(a)'' ''how many'' ''SELECT 1''],
          executed = [''SELECT 1''], schema_fetches = 3,
          visited = [generate_sql, run_query, handle_error, final_error]\<rparr> ''how many'')
   \<and> field_of ''result'' (ask steady_env
         \<lparr>llm_state = 0, db_state = 0, prompts = [], executed = [], schema_fetches = 0,
          visited = []\<rparr> ''how many'')
       = field_of ''result'' (ask steady_env
         \<lparr>llm_state = 2, db_state = 0,
          prompts = [QUERY_PROMPT ''t(a)'' ''how many'',
                     ERROR_HANDLING_PROMPT [] ''t(a)'' ''how many'' ''SELECT 1''],
          executed = [''SELECT 1''], schema_fetches = 3,
          visited = [generate_sql, run_query, handle_error, final_error]\<rparr> ''how many'')"
proof -
  let ?w1 = "\<lparr>llm_state = 0::nat, db_state = 0::nat, prompts = [], executed = [],
              schema_fetches = 0, visited = []\<rparr>"
  let ?w2 = "\<lparr>llm_state = 2::nat, db_state = 0::nat,
          prompts = [QUERY_PROMPT ''t(a)'' ''how many'',
                     ERROR_HANDLING_PROMPT [] ''t(a)'' ''how many'' ''SELECT 1''],
          executed = [''SELECT 1''], schema_fetches = 3,
          visited = [generate_sql, run_query, handle_error, final_error]\<rparr>"
  have det: "\<forall>l l' p. fst (llm_invoke steady_env l p) = fst (llm_invoke steady_env l' p)"
    by (simp add: steady_env_def)
  have db: "db_state ?w2 = db_state ?w1" by simp
  have first: "map_option snd (ask steady_env ?w1 ''how many'') = Some ?w2"
    by (simp add: ask_def get_schema_def run_steady) (simp add: steady_env_def)
  from rerun_gives_same_sql_and_result [OF det db, of "''how many''"]
  have "field_of ''sql'' (ask steady_env ?w1 ''how many'')
          = field_of ''sql'' (ask steady_env ?w2 ''how many'')
      \<and> field_of ''result'' (ask steady_env ?w1 ''how many'')
          = field_of ''result'' (ask steady_env ?w2 ''how many'')"
    by (auto simp: field_of_def)
  with det first show ?thesis by simp
qed

end
